theory Spec2Isabelle
  imports Complex_Main
begin

section \<open>Data model\<close>

text \<open>
  The types of \<^verbatim>\<open>types/music.ts\<close>. A JavaScript number is modelled as \<^typ>\<open>int\<close> where the
  program only ever stores integers in it (pitches, indices, fingers, measure numbers, the
  entries of the difficulty configuration) and as \<^typ>\<open>real\<close> otherwise (durations, beats,
  ratios, costs). A \<^verbatim>\<open>Finger\<close> is an integer; that it stays within 1..5 is proved, not assumed.
  Of a \<^verbatim>\<open>Note\<close> only the fields that the recognizer and the planner read are kept.

  The costs of the planner are IEEE doubles, and the planner compares them: every division and
  every addition of costs is rounded by \<open>fl\<close> below, as the machine rounds it, and so is the
  average duration that decides the size of a window of the recognizer. The features that the
  recognizer extracts from a window (ratios, averages, variance, entropy) and its confidences
  are exact.
\<close>

datatype Hand = RH | LH

datatype PatternType =
  SCALE | ARPEGGIO | REPEATED | LEAP | CHORDAL | MELODIC | UNKNOWN
  | ALBERTI | ORNAMENTED | OSTINATO | POLYPHONIC

record Note =
  pitch :: int
  duration :: real
  voice :: int
  staff :: int
  hand :: Hand
  measureNumber :: int
  beat :: real
  isGrace :: bool
  hasSlur :: bool
  hasTrill :: bool
  hasMordent :: bool
  hasTurn :: bool

datatype Direction = Ascending | Descending | Bidirectional | Mixed
datatype ScaleType = Major | Minor | Chromatic | Pentatonic | Modal
datatype ChordType =
  ChordMajor | ChordMinor | Diminished | Augmented | Dominant7 | Major7 | Complex
datatype RepeatType = Single | Alternating | Pattern
datatype OrnamentType = Trill | Mordent | Turn | Grace
datatype Contour = Jagged | Arch | Valley | Linear
datatype Style = Cantabile | Lyrical | Expressive | Neutral

record PatternFeatures =
  direction :: "Direction option"
  scaleType :: "ScaleType option"
  chordType :: "ChordType option"
  chordRoot :: "int option"
  inversion :: "int option"
  repeatCount :: "int option"
  repeatType :: "RepeatType option"
  ornamentType :: "OrnamentType option"
  intervalPattern :: "int list option"
  contour :: "Contour option"
  style :: "Style option"

definition noFeatures :: PatternFeatures where
  "noFeatures = \<lparr>direction = None, scaleType = None, chordType = None, chordRoot = None,
     inversion = None, repeatCount = None, repeatType = None, ornamentType = None,
     intervalPattern = None, contour = None, style = None\<rparr>"

record PatternSegment =
  startIndex :: int
  endIndex :: int
  patternType :: PatternType
  confidence :: real
  features :: PatternFeatures

subsection \<open>Rounding to a double\<close>

text \<open>
  \<open>binade x\<close> is the exponent of a positive \<open>x\<close>, the integer \<open>e\<close> with \<open>2^e \<le> x < 2^(e + 1)\<close>.
\<close>

function binade :: "real \<Rightarrow> int" where
  "binade x = (if x \<le> 0 then 0 else if 2 \<le> x then binade (x / 2) + 1
               else if x < 1 then binade (x * 2) - 1 else 0)"
  by pat_completeness auto
termination
proof (relation "measure (\<lambda>x. nat \<bar>\<lfloor>log 2 x\<rfloor>\<bar>)")
  show "wf (measure (\<lambda>x. nat \<bar>\<lfloor>log 2 x\<rfloor>\<bar>))" by simp
next
  fix x :: real assume a: "\<not> x \<le> 0" "2 \<le> x"
  then have "1 \<le> log 2 x" using log_le_cancel_iff [of 2 2 x] by simp
  then have "1 \<le> \<lfloor>log 2 x\<rfloor>" by linarith
  moreover have "\<lfloor>log 2 (x / 2)\<rfloor> = \<lfloor>log 2 x\<rfloor> - 1" using a by (simp add: log_divide)
  ultimately show "(x / 2, x) \<in> measure (\<lambda>x. nat \<bar>\<lfloor>log 2 x\<rfloor>\<bar>)" by simp
next
  fix x :: real assume a: "\<not> x \<le> 0" "\<not> 2 \<le> x" "x < 1"
  then have "log 2 x < 0" by simp
  then have "\<lfloor>log 2 x\<rfloor> \<le> - 1" by linarith
  moreover have "\<lfloor>log 2 (x * 2)\<rfloor> = \<lfloor>log 2 x\<rfloor> + 1" using a by (simp add: log_mult)
  ultimately show "(x * 2, x) \<in> measure (\<lambda>x. nat \<bar>\<lfloor>log 2 x\<rfloor>\<bar>)" by simp
qed

declare binade.simps [simp del]

text \<open>The nearest integer, the even one of the two when \<open>y\<close> lies halfway.\<close>

definition roundEven :: "real \<Rightarrow> int" where
  "roundEven y =
     (let r = \<lfloor>y\<rfloor>; d = y - of_int r
      in if d < 1 / 2 then r else if 1 / 2 < d then r + 1 else if even r then r else r + 1)"

text \<open>
  The double nearest to \<open>x\<close> (round to nearest, ties to even): a significand of 53 bits, so the
  doubles around \<open>x\<close> are the multiples of \<open>2^(binade \<bar>x\<bar> - 52)\<close>. The range of the exponent is not
  modelled: above \<open>2^1024\<close> a double overflows to \<^verbatim>\<open>Infinity\<close> and below \<open>2^-1022\<close> the spacing
  stays \<open>2^-1074\<close>; a cost of the planner is a sum of integers and of a third of 10, 30 or 80
  and comes near neither.
\<close>

definition fl :: "real \<Rightarrow> real" where
  "fl x = (if x = 0 then 0
           else let u = 2 powi (binade \<bar>x\<bar> - 52) in of_int (roundEven (x / u)) * u)"

subsection \<open>Costs\<close>

record CostResult =
  cost :: real
  reasons :: "string list"

text \<open>
  A number that may be \<^verbatim>\<open>Infinity\<close>: the running minimum of the dynamic program starts
  there, and so does the total cost of a solution.
\<close>

datatype Total = Finite real | Infinity

fun lessTotal :: "real \<Rightarrow> Total \<Rightarrow> bool" where
  "lessTotal c Infinity = True"
| "lessTotal c (Finite m) = (c < m)"

fun plusTotal :: "Total \<Rightarrow> Total \<Rightarrow> Total" where
  "plusTotal (Finite a) (Finite b) = Finite (fl (a + b))"
| "plusTotal _ _ = Infinity"

text \<open>
  A \<^verbatim>\<open>FingeringSolution\<close> without its \<^verbatim>\<open>path\<close>, which repeats the fingering and is read by
  nobody.
\<close>

record FingeringSolution =
  fingering :: "int list"
  totalCost :: Total
  explanations :: "string list"

section \<open>Fingering planner\<close>

datatype Difficulty = Beginner | Intermediate | Advanced

record DifficultyConfig =
  thumbCrossingPenalty :: int
  positionChangePenalty :: int
  finger4Penalty :: int
  finger5Penalty :: int
  stretchPenalty :: int
  maxComfortableSpan :: int
  preferSimplePatterns :: bool
  allowThumbOnBlack :: bool

fun getDifficultyConfig :: "Difficulty \<Rightarrow> DifficultyConfig" where
  "getDifficultyConfig Beginner =
     \<lparr>thumbCrossingPenalty = 80, positionChangePenalty = 60, finger4Penalty = 15,
      finger5Penalty = 10, stretchPenalty = 25, maxComfortableSpan = 5,
      preferSimplePatterns = True, allowThumbOnBlack = False\<rparr>"
| "getDifficultyConfig Advanced =
     \<lparr>thumbCrossingPenalty = 10, positionChangePenalty = 15, finger4Penalty = 0,
      finger5Penalty = 0, stretchPenalty = 5, maxComfortableSpan = 9,
      preferSimplePatterns = False, allowThumbOnBlack = True\<rparr>"
| "getDifficultyConfig Intermediate =
     \<lparr>thumbCrossingPenalty = 30, positionChangePenalty = 30, finger4Penalty = 5,
      finger5Penalty = 5, stretchPenalty = 12, maxComfortableSpan = 7,
      preferSimplePatterns = False, allowThumbOnBlack = False\<rparr>"

definition fingers :: "int list" where
  "fingers = [1, 2, 3, 4, 5]"

definition naturalSpans :: "(int \<times> int) \<Rightarrow> int option" where
  "naturalSpans = map_of
     [((1, 2), 2), ((2, 3), 2), ((3, 4), 1), ((4, 5), 2),
      ((1, 3), 4), ((2, 4), 3), ((3, 5), 3),
      ((1, 4), 5), ((2, 5), 5),
      ((1, 5), 8)]"

definition getNaturalSpan :: "int \<Rightarrow> int \<Rightarrow> int" where
  "getNaturalSpan finger1 finger2 =
     (case naturalSpans (min finger1 finger2, max finger1 finger2) of
        Some s \<Rightarrow> s | None \<Rightarrow> 0)"

text \<open>The remainder operator \<^verbatim>\<open>%\<close> of JavaScript takes the sign of the dividend.\<close>

definition jsRem :: "int \<Rightarrow> int \<Rightarrow> int" where
  "jsRem a b = sgn a * (\<bar>a\<bar> mod \<bar>b\<bar>)"

definition isBlackKey :: "int \<Rightarrow> bool" where
  "isBlackKey p = (jsRem p 12 \<in> set [1, 3, 6, 8, 10])"

definition getExpectedFinger :: "int \<Rightarrow> Hand \<Rightarrow> int" where
  "getExpectedFinger offset h =
     (if h = RH then
        (if offset \<le> 0 then 1 else if offset \<le> 2 then 2 else if offset \<le> 4 then 3
         else if offset \<le> 6 then 4 else 5)
      else
        (if offset \<ge> 0 then 1 else if offset \<ge> - 2 then 2 else if offset \<ge> - 4 then 3
         else if offset \<ge> - 6 then 4 else 5))"

record HandPosition =
  anchorPitch :: int
  inPosition :: bool

text \<open>
  One \<^verbatim>\<open>cost += c\<close> (or \<^verbatim>\<open>cost -= c\<close>) together with the \<^verbatim>\<open>reasons.push\<close> next to it: the sum is
  rounded. A block that does not fire contributes \<open>noCost\<close>, and adding 0 leaves a double as it
  is (\<open>fl_idem\<close> below).
\<close>

definition addCost :: "CostResult \<Rightarrow> CostResult \<Rightarrow> CostResult" where
  "addCost a b = \<lparr>cost = fl (cost a + cost b), reasons = reasons a @ reasons b\<rparr>"

definition noCost :: CostResult where
  "noCost = \<lparr>cost = 0, reasons = []\<rparr>"

text \<open>
  \<^verbatim>\<open>computeInitialCost\<close> adds to one running cost in three blocks, in this order. Of the three
  additions of the second block exactly one fires, since their conditions on the finger exclude
  each other.
\<close>

definition initPosition :: "int \<Rightarrow> Note \<Rightarrow> Hand \<Rightarrow> HandPosition \<Rightarrow> CostResult" where
  "initPosition finger note h pos =
     (let offset = pitch note - anchorPitch pos;
          expectedFinger = getExpectedFinger offset h
      in if finger = expectedFinger then \<lparr>cost = - 25, reasons = [''Matches position'']\<rparr>
         else \<lparr>cost = of_int (\<bar>finger - expectedFinger\<bar> * 12), reasons = []\<rparr>)"

definition initDifficulty :: "Difficulty \<Rightarrow> DifficultyConfig \<Rightarrow> int \<Rightarrow> CostResult" where
  "initDifficulty level config finger =
     (if level = Beginner then
        \<lparr>cost = (if finger = 4 then of_int (finger4Penalty config) else 0)
               + (if finger = 5 then of_int (finger5Penalty config) else 0)
               + (if finger = 1 \<or> finger = 2 \<or> finger = 3 then - 5 else 0),
         reasons = []\<rparr>
      else noCost)"

definition initBlackKey :: "DifficultyConfig \<Rightarrow> int \<Rightarrow> Note \<Rightarrow> CostResult" where
  "initBlackKey config finger note =
     (if isBlackKey (pitch note) then
        (if finger = 1 \<or> finger = 5 then
           \<lparr>cost = (if allowThumbOnBlack config then 10 else 25),
            reasons = [''Short finger on black key'']\<rparr>
         else \<lparr>cost = - 8, reasons = [''Long finger on black key'']\<rparr>)
      else noCost)"

definition computeInitialCost ::
  "Difficulty \<Rightarrow> int \<Rightarrow> Note \<Rightarrow> Hand \<Rightarrow> HandPosition \<Rightarrow> DifficultyConfig \<Rightarrow> CostResult" where
  "computeInitialCost level finger note h pos config =
     addCost (addCost (initPosition finger note h pos) (initDifficulty level config finger))
       (initBlackKey config finger note)"

definition isNaturalProgression :: "int \<Rightarrow> int \<Rightarrow> bool \<Rightarrow> Hand \<Rightarrow> bool" where
  "isNaturalProgression prevFinger currFinger ascending h =
     (let fingerDiff = currFinger - prevFinger
      in if h = RH then
           (if ascending \<and> fingerDiff > 0 then True
            else if \<not> ascending \<and> fingerDiff < 0 then True else False)
         else
           (if ascending \<and> fingerDiff < 0 then True
            else if \<not> ascending \<and> fingerDiff > 0 then True else False))"

definition isThumbCrossing :: "int \<Rightarrow> int \<Rightarrow> bool" where
  "isThumbCrossing prevFinger currFinger =
     ((prevFinger = 1 \<and> currFinger > 1) \<or> (prevFinger > 1 \<and> currFinger = 1))"

definition isFingerCrossing :: "int \<Rightarrow> int \<Rightarrow> bool" where
  "isFingerCrossing prevFinger currFinger =
     (if prevFinger = 1 \<or> currFinger = 1 then False else False)"

definition computeScaleCost ::
  "int \<Rightarrow> int \<Rightarrow> bool \<Rightarrow> Hand \<Rightarrow> DifficultyConfig \<Rightarrow> CostResult" where
  "computeScaleCost prevFinger currFinger ascending h config =
     (let rhAscending = (h = RH \<and> ascending);
          rhDescending = (h = RH \<and> \<not> ascending);
          lhAscending = (h = LH \<and> ascending);
          lhDescending = (h = LH \<and> \<not> ascending);
          up = (if rhAscending \<or> lhDescending then
                  (if (prevFinger, currFinger) \<in> set [(1, 2), (2, 3), (3, 1), (3, 4), (4, 5), (4, 1)]
                   then \<lparr>cost = - 25, reasons = [''Standard scale'']\<rparr> else noCost)
                else noCost);
          down = (if rhDescending \<or> lhAscending then
                  (if (prevFinger, currFinger) \<in>
                        set [(5, 4), (4, 3), (3, 2), (2, 1), (1, 3), (1, 2), (1, 4)]
                   then \<lparr>cost = - 25, reasons = [''Standard scale'']\<rparr> else noCost)
                else noCost);
          same = (if currFinger = prevFinger
                  then \<lparr>cost = 50, reasons = [''Same finger in scale'']\<rparr> else noCost);
          simple = (if preferSimplePatterns config \<and> isThumbCrossing prevFinger currFinger
                    then \<lparr>cost = 20, reasons = []\<rparr> else noCost)
      in addCost (addCost (addCost up down) same) simple)"

definition isGoodArpeggioFingering :: "int \<Rightarrow> int \<Rightarrow> bool \<Rightarrow> Hand \<Rightarrow> bool" where
  "isGoodArpeggioFingering prevFinger currFinger ascending h =
     (if h = RH then
        (if ascending then prevFinger < currFinger \<or> (prevFinger \<ge> 3 \<and> currFinger = 1)
         else prevFinger > currFinger \<or> (prevFinger = 1 \<and> currFinger \<ge> 3))
      else
        (if ascending then prevFinger > currFinger \<or> (prevFinger = 1 \<and> currFinger \<ge> 3)
         else prevFinger < currFinger \<or> (prevFinger \<ge> 3 \<and> currFinger = 1)))"

text \<open>
  \<^verbatim>\<open>computeTransitionCost\<close> is nine rule blocks, each adding to the running cost and pushing
  onto the running reason list. No block reads the running cost, and each adds to it at most
  once, except rule 8, which for a beginner adds up to twice (a penalty of the finger, then
  the reward of a simple transition) and is two entries below. The function adds the
  contributions one after the other in the order of the source, rounding each sum.
\<close>

definition ruleSameFinger :: "int \<Rightarrow> int \<Rightarrow> int \<Rightarrow> CostResult" where
  "ruleSameFinger prevFinger currFinger interval =
     (if currFinger = prevFinger \<and> interval \<noteq> 0
      then \<lparr>cost = 40 + of_int \<bar>interval\<bar> * 5, reasons = [''Same finger leap'']\<rparr>
      else noCost)"

definition ruleRepeatedNote :: "int \<Rightarrow> int \<Rightarrow> int \<Rightarrow> CostResult" where
  "ruleRepeatedNote prevFinger currFinger interval =
     (if interval = 0 then
        (if currFinger = prevFinger then \<lparr>cost = 25, reasons = [''Same finger on repeat'']\<rparr>
         else \<lparr>cost = - 10, reasons = [''Good finger change'']\<rparr>)
      else noCost)"

definition ruleProgression ::
  "DifficultyConfig \<Rightarrow> int \<Rightarrow> int \<Rightarrow> int \<Rightarrow> Hand \<Rightarrow> PatternType \<Rightarrow> bool \<Rightarrow> CostResult" where
  "ruleProgression config prevFinger currFinger interval h patternContext inScale =
     (if interval \<noteq> 0 then
        (if isNaturalProgression prevFinger currFinger (interval > 0) h
         then \<lparr>cost = - 20, reasons = [''Natural progression'']\<rparr>
         else if isThumbCrossing prevFinger currFinger then
           (if inScale \<or> patternContext = SCALE
            then \<lparr>cost = fl (of_int (thumbCrossingPenalty config) / 3),
                  reasons = [''Scale thumb crossing'']\<rparr>
            else \<lparr>cost = of_int (thumbCrossingPenalty config), reasons = [''Thumb crossing'']\<rparr>)
         else if isFingerCrossing prevFinger currFinger
         then \<lparr>cost = 80, reasons = [''Finger crossing'']\<rparr>
         else noCost)
      else noCost)"

definition ruleSpan :: "DifficultyConfig \<Rightarrow> int \<Rightarrow> int \<Rightarrow> int \<Rightarrow> CostResult" where
  "ruleSpan config prevFinger currFinger interval =
     (let naturalSpan = getNaturalSpan prevFinger currFinger;
          overStretch = \<bar>interval\<bar> - naturalSpan
      in if overStretch > 0 then
           (if overStretch > maxComfortableSpan config - naturalSpan
            then \<lparr>cost = 200, reasons = [''Impossible stretch'']\<rparr>
            else \<lparr>cost = of_int (overStretch * stretchPenalty config),
                  reasons = (if overStretch > 2 then [''Stretch''] else [])\<rparr>)
         else noCost)"

definition rulePosition :: "int \<Rightarrow> Note \<Rightarrow> Hand \<Rightarrow> HandPosition \<Rightarrow> bool \<Rightarrow> CostResult" where
  "rulePosition currFinger currNote h pos inScale =
     (if inPosition pos \<and> \<not> inScale then
        (let expectedFinger = getExpectedFinger (pitch currNote - anchorPitch pos) h
         in if currFinger = expectedFinger then \<lparr>cost = - 15, reasons = []\<rparr>
            else \<lparr>cost = of_int (\<bar>currFinger - expectedFinger\<bar> * 8), reasons = []\<rparr>)
      else noCost)"

definition ruleScale ::
  "DifficultyConfig \<Rightarrow> int \<Rightarrow> int \<Rightarrow> int \<Rightarrow> Hand \<Rightarrow> PatternType \<Rightarrow> bool \<Rightarrow> CostResult" where
  "ruleScale config prevFinger currFinger interval h patternContext inScale =
     (if inScale \<or> patternContext = SCALE
      then computeScaleCost prevFinger currFinger (interval > 0) h config
      else noCost)"

definition ruleBlackKey :: "DifficultyConfig \<Rightarrow> int \<Rightarrow> Note \<Rightarrow> CostResult" where
  "ruleBlackKey config currFinger currNote =
     (if isBlackKey (pitch currNote) then
        (if currFinger = 1
         then \<lparr>cost = (if allowThumbOnBlack config then 15 else 35),
               reasons = [''Thumb on black'']\<rparr>
         else if currFinger = 5 then \<lparr>cost = 20, reasons = [''Pinky on black'']\<rparr>
         else \<lparr>cost = - 5, reasons = []\<rparr>)
      else noCost)"

text \<open>
  Rule 8, first part: the two penalties of a beginner's weak fingers. Their conditions exclude
  each other, so at most one of the two additions fires.
\<close>

definition ruleWeakFinger ::
  "Difficulty \<Rightarrow> DifficultyConfig \<Rightarrow> int \<Rightarrow> Note \<Rightarrow> CostResult" where
  "ruleWeakFinger level config currFinger currNote =
     (if level = Beginner then
        \<lparr>cost = (if currFinger = 4 then of_int (finger4Penalty config) else 0)
               + (if currFinger = 5 \<and> \<not> isBlackKey (pitch currNote)
                  then of_int (finger5Penalty config) else 0),
         reasons = []\<rparr>
      else noCost)"

text \<open>Rule 8, second part: the reward that follows.\<close>

definition ruleDifficulty ::
  "Difficulty \<Rightarrow> int \<Rightarrow> int \<Rightarrow> int \<Rightarrow> CostResult" where
  "ruleDifficulty level prevFinger currFinger interval =
     (if level = Beginner then
        (if \<bar>currFinger - prevFinger\<bar> \<le> 1 \<and> \<bar>interval\<bar> \<le> 2
         then \<lparr>cost = - 10, reasons = [''Simple transition'']\<rparr> else noCost)
      else if level = Advanced then
        (if \<bar>interval\<bar> > 5 \<and> isThumbCrossing prevFinger currFinger
         then \<lparr>cost = - 10, reasons = []\<rparr> else noCost)
      else noCost)"

definition ruleArpeggio :: "int \<Rightarrow> int \<Rightarrow> int \<Rightarrow> Hand \<Rightarrow> PatternType \<Rightarrow> CostResult" where
  "ruleArpeggio prevFinger currFinger interval h patternContext =
     (if patternContext = ARPEGGIO \<and>
         isGoodArpeggioFingering prevFinger currFinger (interval > 0) h
      then \<lparr>cost = - 15, reasons = [''Good arpeggio fingering'']\<rparr>
      else noCost)"

definition computeTransitionCost ::
  "Difficulty \<Rightarrow> Note \<Rightarrow> int \<Rightarrow> Note \<Rightarrow> int \<Rightarrow> PatternType \<Rightarrow> Hand \<Rightarrow> HandPosition \<Rightarrow>
   DifficultyConfig \<Rightarrow> bool \<Rightarrow> CostResult" where
  "computeTransitionCost level prevNote prevFinger currNote currFinger patternContext h pos
       config inScale =
     (let interval = pitch currNote - pitch prevNote
      in foldl addCost noCost
           [ruleSameFinger prevFinger currFinger interval,
            ruleRepeatedNote prevFinger currFinger interval,
            ruleProgression config prevFinger currFinger interval h patternContext inScale,
            ruleSpan config prevFinger currFinger interval,
            rulePosition currFinger currNote h pos inScale,
            ruleScale config prevFinger currFinger interval h patternContext inScale,
            ruleBlackKey config currFinger currNote,
            ruleWeakFinger level config currFinger currNote,
            ruleDifficulty level prevFinger currFinger interval,
            ruleArpeggio prevFinger currFinger interval h patternContext])"

subsection \<open>Preparation passes\<close>

record ScaleSegment =
  segStart :: nat
  segEnd :: nat
  ascending :: bool

text \<open>
  The loop state of \<^verbatim>\<open>detectScaleSegments\<close> is \<open>(segStart, direction, stepCount, segments)\<close>.
\<close>

definition scaleStep ::
  "Note list \<Rightarrow> nat \<times> int \<times> nat \<times> ScaleSegment list \<Rightarrow> nat \<Rightarrow>
   nat \<times> int \<times> nat \<times> ScaleSegment list" where
  "scaleStep notes st i =
     (case st of (start, dir, stepCount, segments) \<Rightarrow>
        let interval = pitch (notes ! i) - pitch (notes ! (i - 1));
            absInterval = \<bar>interval\<bar>;
            isStep = (absInterval = 1 \<or> absInterval = 2);
            currDir = sgn interval
        in if isStep \<and> (currDir = dir \<or> dir = 0)
           then (start, (if dir = 0 then currDir else dir), stepCount + 1, segments)
           else (i, (if isStep then currDir else 0), (if isStep then 1 else 0),
                 (if stepCount \<ge> 4
                  then segments @ [\<lparr>segStart = start, segEnd = i - 1, ascending = (dir > 0)\<rparr>]
                  else segments)))"

definition detectScaleSegments :: "Note list \<Rightarrow> ScaleSegment list" where
  "detectScaleSegments notes =
     (if length notes < 5 then []
      else case foldl (scaleStep notes) (0, 0, 0, []) [1..<length notes] of
        (start, dir, stepCount, segments) \<Rightarrow>
          if stepCount \<ge> 4
          then segments @ [\<lparr>segStart = start, segEnd = length notes - 1, ascending = (dir > 0)\<rparr>]
          else segments)"

text \<open>
  The loop state of \<^verbatim>\<open>analyzeHandPositions\<close> is \<open>(segmentStart, minPitch, maxPitch, positions)\<close>.
  The source writes \<^verbatim>\<open>positions[j]\<close> for \<open>j\<close> from \<open>segmentStart\<close> up to \<open>i - 1\<close>; the array holds
  exactly \<open>segmentStart\<close> entries at that moment, so the writes append \<open>i - segmentStart\<close> entries.
\<close>

definition positionStep ::
  "Note list \<Rightarrow> Hand \<Rightarrow> nat \<times> int \<times> int \<times> HandPosition list \<Rightarrow> nat \<Rightarrow>
   nat \<times> int \<times> int \<times> HandPosition list" where
  "positionStep notes h st i =
     (case st of (segmentStart, minPitch, maxPitch, positions) \<Rightarrow>
        let p = pitch (notes ! i);
            newMin = min minPitch p;
            newMax = max maxPitch p
        in if newMax - newMin > 8
           then (i, p, p,
                 positions @ replicate (i - segmentStart)
                   \<lparr>anchorPitch = (if h = RH then minPitch else maxPitch), inPosition = True\<rparr>)
           else (segmentStart, newMin, newMax, positions))"

definition analyzeHandPositions :: "Note list \<Rightarrow> Hand \<Rightarrow> HandPosition list" where
  "analyzeHandPositions notes h =
     (if notes = [] then []
      else case foldl (positionStep notes h) (0, pitch (notes ! 0), pitch (notes ! 0), [])
                  [0..<length notes] of
        (segmentStart, minPitch, maxPitch, positions) \<Rightarrow>
          positions @ replicate (length notes - segmentStart)
            \<lparr>anchorPitch = (if h = RH then minPitch else maxPitch), inPosition = True\<rparr>)"

text \<open>
  \<^verbatim>\<open>getPatternContext\<close>: a first pass compares the note's measure number with the segment
  bounds, a second pass compares the note's index with them.
\<close>

definition getPatternContext :: "Note list \<Rightarrow> nat \<Rightarrow> PatternSegment list \<Rightarrow> PatternType" where
  "getPatternContext notes index patterns =
     (let note = notes ! index
      in case find (\<lambda>p. measureNumber note \<ge> startIndex p \<and> measureNumber note \<le> endIndex p)
                patterns of
           Some p \<Rightarrow> patternType p
         | None \<Rightarrow>
             (case find (\<lambda>p. int index \<ge> startIndex p \<and> int index \<le> endIndex p) patterns of
                Some p \<Rightarrow> patternType p
              | None \<Rightarrow> UNKNOWN))"

subsection \<open>Dynamic program\<close>

text \<open>
  One layer of the table is a JavaScript \<^verbatim>\<open>Map\<close> from finger to state: an association list
  in insertion order, which is the order \<^verbatim>\<open>entries()\<close> walks. A parent pointer, in the source
  the string \<^verbatim>\<open>"index-finger"\<close> that \<^verbatim>\<open>backtrack\<close> splits again, is the pair itself.
\<close>

record DPState = CostResult +
  parent :: "(nat \<times> int) option"

type_synonym DPLayer = "(int \<times> DPState) list"

fun mapSet :: "'k \<Rightarrow> 'v \<Rightarrow> ('k \<times> 'v) list \<Rightarrow> ('k \<times> 'v) list" where
  "mapSet k v [] = [(k, v)]"
| "mapSet k v ((k', v') # ps) = (if k' = k then (k, v) # ps else (k', v') # mapSet k v ps)"

definition initialStep ::
  "Difficulty \<Rightarrow> Note list \<Rightarrow> Hand \<Rightarrow> HandPosition list \<Rightarrow> DifficultyConfig \<Rightarrow>
   DPLayer \<Rightarrow> int \<Rightarrow> DPLayer" where
  "initialStep level notes h handPositions config layer finger =
     (let c = computeInitialCost level finger (notes ! 0) h (handPositions ! 0) config
      in mapSet finger \<lparr>cost = cost c, reasons = reasons c, parent = None\<rparr> layer)"

definition initialLayer ::
  "Difficulty \<Rightarrow> Note list \<Rightarrow> Hand \<Rightarrow> HandPosition list \<Rightarrow> DifficultyConfig \<Rightarrow> DPLayer" where
  "initialLayer level notes h handPositions config =
     foldl (initialStep level notes h handPositions config) [] fingers"

text \<open>
  The inner loop over \<^verbatim>\<open>fromFinger\<close>, with loop state \<open>(minCost, bestParent, bestReasons)\<close>.
\<close>

definition scanStep ::
  "Difficulty \<Rightarrow> Note list \<Rightarrow> nat \<Rightarrow> int \<Rightarrow> PatternType \<Rightarrow> Hand \<Rightarrow> HandPosition \<Rightarrow>
   DifficultyConfig \<Rightarrow> bool \<Rightarrow> DPLayer \<Rightarrow>
   Total \<times> (nat \<times> int) option \<times> string list \<Rightarrow> int \<Rightarrow>
   Total \<times> (nat \<times> int) option \<times> string list" where
  "scanStep level notes i toFinger patternContext h pos config inScale prevLayer acc fromFinger =
     (case acc of (minCost, bestParent, bestReasons) \<Rightarrow>
        (case map_of prevLayer fromFinger of
           None \<Rightarrow> acc
         | Some prevState \<Rightarrow>
             (let transitionCost = computeTransitionCost level (notes ! (i - 1)) fromFinger
                                    (notes ! i) toFinger patternContext h pos config inScale
              in if cost transitionCost > 500 then acc
                 else (let tot = fl (cost prevState + cost transitionCost)
                       in if lessTotal tot minCost
                          then (Finite tot, Some (i - 1, fromFinger), reasons transitionCost)
                          else acc))))"

definition bestPredecessor ::
  "Difficulty \<Rightarrow> Note list \<Rightarrow> nat \<Rightarrow> int \<Rightarrow> PatternType \<Rightarrow> Hand \<Rightarrow> HandPosition \<Rightarrow>
   DifficultyConfig \<Rightarrow> bool \<Rightarrow> DPLayer \<Rightarrow> Total \<times> (nat \<times> int) option \<times> string list" where
  "bestPredecessor level notes i toFinger patternContext h pos config inScale prevLayer =
     foldl (scanStep level notes i toFinger patternContext h pos config inScale prevLayer)
       (Infinity, None, []) fingers"

text \<open>The loop over \<^verbatim>\<open>toFinger\<close>, which fills the layer of note \<open>i\<close>.\<close>

definition layerStep ::
  "Difficulty \<Rightarrow> Note list \<Rightarrow> nat \<Rightarrow> PatternType \<Rightarrow> Hand \<Rightarrow> HandPosition \<Rightarrow>
   DifficultyConfig \<Rightarrow> bool \<Rightarrow> DPLayer \<Rightarrow> DPLayer \<Rightarrow> int \<Rightarrow> DPLayer" where
  "layerStep level notes i patternContext h pos config inScale prevLayer layer toFinger =
     (case bestPredecessor level notes i toFinger patternContext h pos config inScale
             prevLayer of
        (Finite minCost, bestParent, bestReasons) \<Rightarrow>
          mapSet toFinger \<lparr>cost = minCost, reasons = bestReasons, parent = bestParent\<rparr> layer
      | (Infinity, bestParent, bestReasons) \<Rightarrow> layer)"

definition nextLayer ::
  "Difficulty \<Rightarrow> Note list \<Rightarrow> PatternSegment list \<Rightarrow> Hand \<Rightarrow> HandPosition list \<Rightarrow>
   ScaleSegment list \<Rightarrow> DifficultyConfig \<Rightarrow> nat \<Rightarrow> DPLayer \<Rightarrow> DPLayer" where
  "nextLayer level notes patterns h handPositions scaleSegments config i prevLayer =
     foldl (layerStep level notes i (getPatternContext notes i patterns) h (handPositions ! i)
              config (list_ex (\<lambda>seg. i \<ge> segStart seg \<and> i \<le> segEnd seg) scaleSegments)
              prevLayer)
       [] fingers"

text \<open>The forward pass: the table grows by one layer per note.\<close>

definition forwardStep ::
  "Difficulty \<Rightarrow> Note list \<Rightarrow> PatternSegment list \<Rightarrow> Hand \<Rightarrow> HandPosition list \<Rightarrow>
   ScaleSegment list \<Rightarrow> DifficultyConfig \<Rightarrow> DPLayer list \<Rightarrow> nat \<Rightarrow> DPLayer list" where
  "forwardStep level notes patterns h handPositions scaleSegments config dp i =
     dp @ [nextLayer level notes patterns h handPositions scaleSegments config i (dp ! (i - 1))]"

definition forwardPass ::
  "Difficulty \<Rightarrow> Note list \<Rightarrow> PatternSegment list \<Rightarrow> Hand \<Rightarrow> DPLayer list" where
  "forwardPass level notes patterns h =
     foldl (forwardStep level notes patterns h (analyzeHandPositions notes h)
              (detectScaleSegments notes) (getDifficultyConfig level))
       [initialLayer level notes h (analyzeHandPositions notes h) (getDifficultyConfig level)]
       [1..<length notes]"

text \<open>\<^verbatim>\<open>String.join\<close> with the separator \<^verbatim>\<open>'; '\<close>.\<close>

fun joinReasons :: "string list \<Rightarrow> string" where
  "joinReasons [] = []"
| "joinReasons [r] = r"
| "joinReasons (r # rs) = r @ ''; '' @ joinReasons rs"

definition finalStep :: "Total \<times> int \<Rightarrow> int \<times> DPState \<Rightarrow> Total \<times> int" where
  "finalStep acc e =
     (if lessTotal (cost (snd e)) (fst acc) then (Finite (cost (snd e)), fst e) else acc)"

definition bestFinal :: "DPLayer \<Rightarrow> Total \<times> int" where
  "bestFinal layer = foldl finalStep (Infinity, 3) layer"

text \<open>
  The backward loop from \<open>i\<close> down to 0 with finger \<open>currentFinger\<close> at \<open>i\<close>; the result lists the
  fingers and explanations of the indices \<open>0..i\<close> in ascending order.
\<close>

fun walkBack :: "DPLayer list \<Rightarrow> nat \<Rightarrow> int \<Rightarrow> (int \<times> string) list" where
  "walkBack dp 0 currentFinger =
     [(currentFinger,
       case map_of (dp ! 0) currentFinger of
         None \<Rightarrow> [] | Some state \<Rightarrow> joinReasons (reasons state))]"
| "walkBack dp (Suc i) currentFinger =
     (let state = map_of (dp ! Suc i) currentFinger;
          expl = (case state of None \<Rightarrow> [] | Some st \<Rightarrow> joinReasons (reasons st));
          prevFinger = (case state of
                          None \<Rightarrow> currentFinger
                        | Some st \<Rightarrow> (case parent st of
                                        None \<Rightarrow> currentFinger
                                      | Some (j, g) \<Rightarrow> g))
      in walkBack dp i prevFinger @ [(currentFinger, expl)])"

definition backtrack :: "DPLayer list \<Rightarrow> Note list \<Rightarrow> Hand \<Rightarrow> FingeringSolution" where
  "backtrack dp notes h =
     \<lparr>fingering =
        map fst (walkBack dp (length notes - 1) (snd (bestFinal (dp ! (length notes - 1))))),
      totalCost = fst (bestFinal (dp ! (length notes - 1))),
      explanations =
        map snd (walkBack dp (length notes - 1) (snd (bestFinal (dp ! (length notes - 1)))))\<rparr>"

text \<open>
  \<^verbatim>\<open>dpOptimization\<close> is private and is reached with a non-empty stream only:
  \<^verbatim>\<open>planHandFingering\<close> returns before it on an empty one, and no chunk is empty.
\<close>

definition dpOptimization ::
  "Difficulty \<Rightarrow> Note list \<Rightarrow> PatternSegment list \<Rightarrow> Hand \<Rightarrow> FingeringSolution" where
  "dpOptimization level notes patterns h =
     backtrack (forwardPass level notes patterns h) notes h"

subsection \<open>Chunking and merging\<close>

definition chunkSize :: nat where "chunkSize = 32"
definition overlapSize :: nat where "overlapSize = 4"

function chunkNotes :: "Note list \<Rightarrow> nat \<Rightarrow> Note list list" where
  "chunkNotes notes i =
     (if i < length notes
      then (let e = min (i + chunkSize) (length notes)
            in take (e - i) (drop i notes) # chunkNotes notes (i + (chunkSize - overlapSize)))
      else [])"
  by pat_completeness auto
termination
  by (relation "measure (\<lambda>(notes, i). length notes - i)") (auto simp: chunkSize_def overlapSize_def)

declare chunkNotes.simps [simp del]

definition appendChunk ::
  "int list \<times> string list \<times> Total \<Rightarrow> nat \<times> FingeringSolution \<Rightarrow>
   int list \<times> string list \<times> Total" where
  "appendChunk acc e =
     (case acc of (fs, es, tot) \<Rightarrow>
        (case e of (i, sol) \<Rightarrow>
           if i = 0
           then (fs @ fingering sol, es @ explanations sol, plusTotal tot (totalCost sol))
           else (fs @ drop overlapSize (fingering sol), es @ drop overlapSize (explanations sol),
                 plusTotal tot (totalCost sol))))"

definition chunkedOptimization ::
  "Difficulty \<Rightarrow> Note list \<Rightarrow> PatternSegment list \<Rightarrow> Hand \<Rightarrow> FingeringSolution" where
  "chunkedOptimization level notes patterns h =
     (let chunks = chunkNotes notes 0;
          chunkSolutions = map (\<lambda>chunk. dpOptimization level chunk patterns h) chunks
      in case foldl appendChunk ([], [], Finite 0) (enumerate 0 chunkSolutions) of
           (fs, es, tot) \<Rightarrow> \<lparr>fingering = fs, totalCost = tot, explanations = es\<rparr>)"

definition planHandFingering ::
  "Difficulty \<Rightarrow> Note list \<Rightarrow> PatternSegment list \<Rightarrow> Hand \<Rightarrow> FingeringSolution" where
  "planHandFingering level notes patterns h =
     (if length notes = 0 then \<lparr>fingering = [], totalCost = Finite 0, explanations = []\<rparr>
      else if length notes > 64 then chunkedOptimization level notes patterns h
      else dpOptimization level notes patterns h)"

text \<open>
  The merge loop of \<^verbatim>\<open>planFingering\<close>, with loop state \<open>(rhIdx, lhIdx, fingering, explanations)\<close>.
  Reading an array past its end gives \<^verbatim>\<open>undefined\<close>, which \<^verbatim>\<open>|| 3\<close> (and \<^verbatim>\<open>|| ''\<close>) replaces, as
  it does a finger 0.
\<close>

definition orDefault :: "'a list \<Rightarrow> nat \<Rightarrow> 'a \<Rightarrow> 'a \<Rightarrow> 'a" where
  "orDefault xs i falsy d = (if i < length xs \<and> xs ! i \<noteq> falsy then xs ! i else d)"

definition mergeStep ::
  "FingeringSolution \<Rightarrow> FingeringSolution \<Rightarrow> nat \<times> nat \<times> int list \<times> string list \<Rightarrow> Note \<Rightarrow>
   nat \<times> nat \<times> int list \<times> string list" where
  "mergeStep rhSolution lhSolution acc note =
     (case acc of (rhIdx, lhIdx, fs, es) \<Rightarrow>
        if hand note = RH
        then (rhIdx + 1, lhIdx, fs @ [orDefault (fingering rhSolution) rhIdx 0 3],
              es @ [orDefault (explanations rhSolution) rhIdx [] []])
        else (rhIdx, lhIdx + 1, fs @ [orDefault (fingering lhSolution) lhIdx 0 3],
              es @ [orDefault (explanations lhSolution) lhIdx [] []]))"

definition planFingering ::
  "Difficulty \<Rightarrow> Note list \<Rightarrow> PatternSegment list \<Rightarrow> FingeringSolution" where
  "planFingering level notes patterns =
     (if length notes = 0 then \<lparr>fingering = [], totalCost = Finite 0, explanations = []\<rparr>
      else
        let rhNotes = filter (\<lambda>n. hand n = RH) notes;
            lhNotes = filter (\<lambda>n. hand n = LH) notes;
            rhSolution = planHandFingering level rhNotes patterns RH;
            lhSolution = planHandFingering level lhNotes patterns LH
        in case foldl (mergeStep rhSolution lhSolution) (0, 0, [], []) notes of
             (rhIdx, lhIdx, fs, es) \<Rightarrow>
               \<lparr>fingering = fs,
                totalCost = plusTotal (totalCost rhSolution) (totalCost lhSolution),
                explanations = es\<rparr>)"

section \<open>Pattern recognizer\<close>

text \<open>
  The features of one window. The field \<^verbatim>\<open>pitchRange\<close> of the source is left out (no test
  reads it); \<^verbatim>\<open>hasSlur\<close> and \<^verbatim>\<open>staff\<close> are named \<open>anySlur\<close> and \<open>firstStaff\<close> here, the fields
  of \<^typ>\<open>Note\<close> having taken the names.
\<close>

record ExtractedFeatures =
  pitches :: "int list"
  intervals :: "int list"
  pitchEntropy :: real
  ascendingRatio :: real
  descendingRatio :: real
  maxInterval :: int
  avgInterval :: real
  intervalVariance :: real
  stepwiseRatio :: real
  leapRatio :: real
  directionChanges :: nat
  simultaneity :: "nat list"
  avgSimultaneity :: real
  maxSimultaneity :: nat
  durationVariance :: real
  avgDuration :: real
  anySlur :: bool
  hasOrnament :: bool
  hasGrace :: bool
  firstStaff :: int

record ClassificationResult =
  resultType :: PatternType
  resultConfidence :: real
  resultFeatures :: PatternFeatures

subsection \<open>Helpers\<close>

fun computeIntervals :: "int list \<Rightarrow> int list" where
  "computeIntervals (a # b # rest) = (b - a) # computeIntervals (b # rest)"
| "computeIntervals _ = []"

definition entropyTerm :: "'a list \<Rightarrow> 'a \<Rightarrow> real" where
  "entropyTerm vals v =
     (let p = real (count_list vals v) / real (length vals)
      in if p > 0 then p * log 2 p else 0)"

definition computeEntropy :: "int list \<Rightarrow> real" where
  "computeEntropy vals = - sum_list (map (entropyTerm vals) (remdups vals))"

definition computeVariance :: "real list \<Rightarrow> real" where
  "computeVariance vals =
     (if length vals = 0 then 0
      else sum_list (map (\<lambda>v. (v - sum_list vals / real (length vals))\<^sup>2) vals)
             / real (length vals))"

fun countDirectionChanges :: "int list \<Rightarrow> nat" where
  "countDirectionChanges (a # b # rest) =
     (if sgn b \<noteq> sgn a \<and> b \<noteq> 0 \<and> a \<noteq> 0 then 1 else 0) + countDirectionChanges (b # rest)"
| "countDirectionChanges _ = 0"

text \<open>\<^verbatim>\<open>Math.round\<close> rounds to the nearest integer, a tie upwards.\<close>

definition jsRound :: "real \<Rightarrow> int" where
  "jsRound x = \<lfloor>x + 1 / 2\<rfloor>"

definition beatKey :: "Note \<Rightarrow> real" where
  "beatKey n = of_int (jsRound (beat n * 100)) / 100"

definition countStep :: "(real \<times> nat) list \<Rightarrow> real \<Rightarrow> (real \<times> nat) list" where
  "countStep beatMap k = mapSet k ((case map_of beatMap k of None \<Rightarrow> 0 | Some c \<Rightarrow> c) + 1) beatMap"

definition computeSimultaneity :: "Note list \<Rightarrow> nat list" where
  "computeSimultaneity notes = map snd (foldl countStep [] (map beatKey notes))"

text \<open>The distinct values of a list in the order of their first occurrence, as a \<^verbatim>\<open>Set\<close> keeps them.\<close>

definition firstOccurrences :: "'a list \<Rightarrow> 'a list" where
  "firstOccurrences xs = rev (remdups (rev xs))"

definition pitchClasses :: "int list \<Rightarrow> int list" where
  "pitchClasses ps = sort (remdups (map (\<lambda>p. jsRem p 12) ps))"

fun maxList :: "int list \<Rightarrow> int" where
  "maxList [] = 0"
| "maxList [x] = x"
| "maxList (x # xs) = max x (maxList xs)"

fun maxNat :: "nat list \<Rightarrow> nat" where
  "maxNat [] = 1"
| "maxNat [x] = x"
| "maxNat (x # xs) = max x (maxNat xs)"

subsection \<open>Feature extraction\<close>

definition extractFeatures :: "Note list \<Rightarrow> ExtractedFeatures" where
  "extractFeatures notes =
     (let ps = map pitch notes;
          ivs = computeIntervals ps;
          totalIntervals = (if length ivs = 0 then 1 else length ivs);
          absIntervals = map abs ivs;
          sim = computeSimultaneity notes;
          durations = map duration notes
      in \<lparr>pitches = ps,
          intervals = ivs,
          pitchEntropy = computeEntropy ps,
          ascendingRatio = real (length (filter (\<lambda>i. i > 0) ivs)) / real totalIntervals,
          descendingRatio = real (length (filter (\<lambda>i. i < 0) ivs)) / real totalIntervals,
          maxInterval = maxList absIntervals,
          avgInterval = (if length absIntervals > 0
                         then of_int (sum_list absIntervals) / real (length absIntervals) else 0),
          intervalVariance = computeVariance (map of_int absIntervals),
          stepwiseRatio = (if length absIntervals > 0
                           then real (length (filter (\<lambda>i. i \<le> 2) absIntervals))
                                  / real (length absIntervals) else 0),
          leapRatio = (if length absIntervals > 0
                       then real (length (filter (\<lambda>i. i > 4) absIntervals))
                              / real (length absIntervals) else 0),
          directionChanges = countDirectionChanges ivs,
          simultaneity = sim,
          avgSimultaneity = real (sum_list sim) / real (if length sim = 0 then 1 else length sim),
          maxSimultaneity = maxNat sim,
          durationVariance = computeVariance durations,
          avgDuration = sum_list durations / real (length durations),
          anySlur = list_ex hasSlur notes,
          hasOrnament = list_ex (\<lambda>n. hasTrill n \<or> hasMordent n \<or> hasTurn n) notes,
          hasGrace = list_ex isGrace notes,
          firstStaff = (case notes of [] \<Rightarrow> 1 | n # _ \<Rightarrow> if staff n = 0 then 1 else staff n)\<rparr>)"

subsection \<open>Detectors of the special patterns\<close>

fun isAlternatingFrom :: "int list \<Rightarrow> bool" where
  "isAlternatingFrom (a # b # rest) =
     (if \<bar>a\<bar> > 2 \<or> a \<noteq> - b then False else isAlternatingFrom (b # rest))"
| "isAlternatingFrom _ = True"

definition isAlternatingPattern :: "int list \<Rightarrow> bool" where
  "isAlternatingPattern ivs = (if length ivs < 3 then False else isAlternatingFrom ivs)"

definition ornamentOnly :: "OrnamentType \<Rightarrow> PatternFeatures" where
  "ornamentOnly t = noFeatures\<lparr>ornamentType := Some t\<rparr>"

definition detectOrnamented :: "Note list \<Rightarrow> ExtractedFeatures \<Rightarrow> ClassificationResult option" where
  "detectOrnamented notes f =
     (if hasOrnament f \<or> hasGrace f then
        Some \<lparr>resultType = ORNAMENTED, resultConfidence = 1.0,
              resultFeatures = ornamentOnly
                (if list_ex hasTrill notes then Trill
                 else if list_ex hasMordent notes then Mordent
                 else if list_ex hasTurn notes then Turn
                 else Grace)\<rparr>
      else if avgDuration f < 0.125 \<and> maxInterval f \<le> 2 \<and> isAlternatingPattern (intervals f)
      then Some \<lparr>resultType = ORNAMENTED, resultConfidence = 0.75,
                 resultFeatures = ornamentOnly Trill\<rparr>
      else None)"

fun albertiMatches :: "int list \<Rightarrow> nat" where
  "albertiMatches (p0 # p1 # p2 # p3 # rest) =
     (if p0 < p2 \<and> p2 < p1 \<and> \<bar>p1 - p3\<bar> \<le> 1 then 1 else 0) + albertiMatches rest"
| "albertiMatches _ = 0"

definition detectAlberti :: "Note list \<Rightarrow> ExtractedFeatures \<Rightarrow> ClassificationResult option" where
  "detectAlberti notes f =
     (if firstStaff f \<noteq> 2 \<and> (case pitches f of [] \<Rightarrow> False | p # _ \<Rightarrow> p \<ge> 60) then None
      else if length notes < 4 then None
      else
        let matchCount = albertiMatches (map pitch notes);
            totalGroups = length notes div 4;
            matchRatio = (if totalGroups > 0 then real matchCount / real totalGroups else 0)
        in if matchRatio \<ge> 0.6
           then Some \<lparr>resultType = ALBERTI,
                      resultConfidence = min 0.95 (0.6 + matchRatio * 0.35),
                      resultFeatures = noFeatures\<lparr>repeatCount := Some (int matchCount)\<rparr>\<rparr>
           else None)"

function countRepeats :: "int list \<Rightarrow> int list \<Rightarrow> nat" where
  "countRepeats pat rest =
     (if pat \<noteq> [] \<and> length pat \<le> length rest \<and> take (length pat) rest = pat
      then Suc (countRepeats pat (drop (length pat) rest))
      else 0)"
  by pat_completeness auto
termination
  by (relation "measure (\<lambda>(pat, rest). length rest)") (auto simp: neq_Nil_conv)

declare countRepeats.simps [simp del]

definition ostinatoAt :: "int list \<Rightarrow> nat \<Rightarrow> nat" where
  "ostinatoAt ps patternLen = countRepeats (take patternLen ps) (drop patternLen ps)"

definition detectOstinato :: "Note list \<Rightarrow> ExtractedFeatures \<Rightarrow> ClassificationResult option" where
  "detectOstinato notes f =
     (case find (\<lambda>patternLen. ostinatoAt (map pitch notes) patternLen \<ge> 2)
             [2..<Suc (min 8 (length notes div 3))] of
        None \<Rightarrow> None
      | Some patternLen \<Rightarrow>
          Some \<lparr>resultType = OSTINATO,
                resultConfidence =
                  min 0.95 (0.7 + real (ostinatoAt (map pitch notes) patternLen) * 0.05),
                resultFeatures = noFeatures
                  \<lparr>repeatCount := Some (int (ostinatoAt (map pitch notes) patternLen) + 1),
                   intervalPattern :=
                     Some (computeIntervals (take patternLen (map pitch notes)))\<rparr>\<rparr>)"

definition voiceBeats :: "Note list \<Rightarrow> int \<Rightarrow> real list" where
  "voiceBeats notes v = remdups (map beat (filter (\<lambda>n. voice n = v) notes))"

definition detectPolyphonic :: "Note list \<Rightarrow> ExtractedFeatures \<Rightarrow> ClassificationResult option" where
  "detectPolyphonic notes f =
     (case firstOccurrences (map voice notes) of
        v1 # v2 # others \<Rightarrow>
          (let beats1 = voiceBeats notes v1;
               beats2 = voiceBeats notes v2;
               overlap = length (filter (\<lambda>b. b \<in> set beats2) beats1);
               correlation = real overlap / real (max (length beats1) (length beats2))
           in if correlation < 0.4
              then Some \<lparr>resultType = POLYPHONIC, resultConfidence = 0.8,
                         resultFeatures = noFeatures\<rparr>
              else None)
      | _ \<Rightarrow> None)"

text \<open>The loop state of the run counter is \<open>(currentRepeat, maxRepeat)\<close>.\<close>

fun maxRun :: "int list \<Rightarrow> nat \<Rightarrow> nat \<Rightarrow> nat" where
  "maxRun (a # b # rest) currentRepeat maxRepeat =
     (if b = a then maxRun (b # rest) (currentRepeat + 1) (max maxRepeat (currentRepeat + 1))
      else maxRun (b # rest) 1 maxRepeat)"
| "maxRun _ currentRepeat maxRepeat = maxRepeat"

definition alternatesAt :: "int list \<Rightarrow> nat \<times> int \<Rightarrow> bool" where
  "alternatesAt ps e = (if fst e mod 2 = 0 then snd e = ps ! 0 else snd e = ps ! 1)"

definition detectRepeated :: "Note list \<Rightarrow> ExtractedFeatures \<Rightarrow> ClassificationResult option" where
  "detectRepeated notes f =
     (if maxRun (pitches f) 1 1 \<ge> 3 then
        Some \<lparr>resultType = REPEATED,
              resultConfidence = min 0.95 (0.7 + real (maxRun (pitches f) 1 1) * 0.05),
              resultFeatures = noFeatures
                \<lparr>repeatCount := Some (int (maxRun (pitches f) 1 1)),
                 repeatType := Some Single\<rparr>\<rparr>
      else if length (pitches f) \<ge> 4
              \<and> list_all (alternatesAt (pitches f)) (enumerate 0 (pitches f))
              \<and> pitches f ! 0 \<noteq> pitches f ! 1
      then Some \<lparr>resultType = REPEATED, resultConfidence = 0.85,
                 resultFeatures = noFeatures
                   \<lparr>repeatCount := Some (int (length (pitches f) div 2)),
                    repeatType := Some Alternating\<rparr>\<rparr>
      else None)"

subsection \<open>Classifiers of the primary patterns\<close>

definition chordOf :: "int list \<Rightarrow> ChordType \<times> int \<times> int" where
  "chordOf ps =
     (let pcs = pitchClasses ps
      in if length pcs < 3 then (Complex, (case pcs of [] \<Rightarrow> 0 | r # _ \<Rightarrow> r), 0)
         else
           let i1 = jsRem (pcs ! 1 - pcs ! 0 + 12) 12;
               i2 = jsRem (pcs ! 2 - pcs ! 1 + 12) 12
           in ((if i1 = 4 \<and> i2 = 3 then ChordMajor
                else if i1 = 3 \<and> i2 = 4 then ChordMinor
                else if i1 = 3 \<and> i2 = 3 then Diminished
                else if i1 = 4 \<and> i2 = 4 then Augmented
                else Complex),
               pcs ! 0, 0))"

definition chordFeatures :: "int list \<Rightarrow> PatternFeatures" where
  "chordFeatures ps =
     (case chordOf ps of (t, r, inver) \<Rightarrow>
        noFeatures\<lparr>chordType := Some t, chordRoot := Some r, inversion := Some inver\<rparr>)"

definition classifyChordal :: "Note list \<Rightarrow> ExtractedFeatures \<Rightarrow> ClassificationResult" where
  "classifyChordal notes f =
     \<lparr>resultType = CHORDAL, resultConfidence = 0.9, resultFeatures = chordFeatures (pitches f)\<rparr>"

text \<open>
  \<^verbatim>\<open>identifyScaleType\<close> joins the magnitudes with commas and searches the string, so the decimal
  rendering of a number is part of the model.
\<close>

definition digitChar :: "nat \<Rightarrow> char" where
  "digitChar d = ''0123456789'' ! d"

function showNat :: "nat \<Rightarrow> string" where
  "showNat n = (if n < 10 then [digitChar n] else showNat (n div 10) @ [digitChar (n mod 10)])"
  by pat_completeness auto
termination
  by (relation "measure id") auto

declare showNat.simps [simp del]

fun joinComma :: "string list \<Rightarrow> string" where
  "joinComma [] = []"
| "joinComma [x] = x"
| "joinComma (x # xs) = x @ '','' @ joinComma xs"

fun isPrefix :: "string \<Rightarrow> string \<Rightarrow> bool" where
  "isPrefix [] ys = True"
| "isPrefix (x # xs) [] = False"
| "isPrefix (x # xs) (y # ys) = (x = y \<and> isPrefix xs ys)"

fun strIncludes :: "string \<Rightarrow> string \<Rightarrow> bool" where
  "strIncludes [] sub = (sub = [])"
| "strIncludes (c # cs) sub = (isPrefix sub (c # cs) \<or> strIncludes cs sub)"

definition identifyScaleType :: "int list \<Rightarrow> ScaleType" where
  "identifyScaleType ivs =
     (let absIntervals = map abs ivs;
          pat = joinComma (map (\<lambda>i. showNat (nat i)) absIntervals)
      in if list_all (\<lambda>i. i = 1) absIntervals then Chromatic
         else if strIncludes pat ''2,2,1,2,2,2,1'' \<or> strIncludes pat ''2,2,1,2,2,2'' then Major
         else if strIncludes pat ''2,1,2,2,1,2,2'' \<or> strIncludes pat ''2,1,2,2,2,1'' then Minor
         else if list_all (\<lambda>i. i = 2 \<or> i = 3) absIntervals then Pentatonic
         else Modal)"

definition classifyScale ::
  "Note list \<Rightarrow> ExtractedFeatures \<Rightarrow> Direction \<Rightarrow> ClassificationResult" where
  "classifyScale notes f dir =
     \<lparr>resultType = SCALE, resultConfidence = 0.92,
      resultFeatures = noFeatures
        \<lparr>direction := Some dir, scaleType := Some (identifyScaleType (intervals f))\<rparr>\<rparr>"

definition determineDirection :: "ExtractedFeatures \<Rightarrow> Direction" where
  "determineDirection f =
     (if ascendingRatio f > 0.75 then Ascending
      else if descendingRatio f > 0.75 then Descending
      else if ascendingRatio f > 0.5 \<and> descendingRatio f > 0.3 then Bidirectional
      else Mixed)"

definition determineArpeggioDirection :: "ExtractedFeatures \<Rightarrow> Direction" where
  "determineArpeggioDirection f =
     (let firstDir = sum_list (map sgn (take (length (intervals f) div 2) (intervals f)));
          secondDir = sum_list (map sgn (drop (length (intervals f) div 2) (intervals f)))
      in if firstDir > 0 \<and> secondDir < 0 then Bidirectional
         else if firstDir > 0 then Ascending
         else if firstDir < 0 then Descending
         else Mixed)"

definition belongsToChord :: "int list \<Rightarrow> bool" where
  "belongsToChord ps =
     (let pcs = pitchClasses ps
      in if length pcs < 3 \<or> length pcs > 4 then False
         else if length pcs = 3
                 \<and> (let i1 = jsRem (pcs ! 1 - pcs ! 0 + 12) 12;
                         i2 = jsRem (pcs ! 2 - pcs ! 1 + 12) 12
                     in (i1 = 4 \<and> i2 = 3) \<or> (i1 = 3 \<and> i2 = 4)
                        \<or> (i1 = 3 \<and> i2 = 3) \<or> (i1 = 4 \<and> i2 = 4))
         then True
         else if length pcs = 4
                 \<and> (let j0 = jsRem (pcs ! 1 - pcs ! 0 + 12) 12;
                         j1 = jsRem (pcs ! 2 - pcs ! 1 + 12) 12
                     in j0 \<ge> 3 \<and> j0 \<le> 4 \<and> j1 \<ge> 3 \<and> j1 \<le> 4)
         then True
         else False)"

definition classifyArpeggio :: "Note list \<Rightarrow> ExtractedFeatures \<Rightarrow> ClassificationResult" where
  "classifyArpeggio notes f =
     \<lparr>resultType = ARPEGGIO, resultConfidence = 0.88,
      resultFeatures = (chordFeatures (pitches f))
        \<lparr>direction := Some (determineArpeggioDirection f)\<rparr>\<rparr>"

definition analyzeContour :: "ExtractedFeatures \<Rightarrow> Contour" where
  "analyzeContour f =
     (if real (directionChanges f) > real (length (intervals f)) * 0.5 then Jagged
      else
        let firstTrend = sum_list (take (length (intervals f) div 2) (intervals f));
            secondTrend = sum_list (drop (length (intervals f) div 2) (intervals f))
        in if firstTrend > 0 \<and> secondTrend < 0 then Arch
           else if firstTrend < 0 \<and> secondTrend > 0 then Valley
           else Linear)"

definition classifyLeap :: "Note list \<Rightarrow> ExtractedFeatures \<Rightarrow> ClassificationResult" where
  "classifyLeap notes f =
     \<lparr>resultType = LEAP, resultConfidence = 0.8,
      resultFeatures = noFeatures
        \<lparr>direction := Some (if ascendingRatio f > 0.6 then Ascending
                             else if descendingRatio f > 0.6 then Descending else Mixed),
         contour := Some (analyzeContour f)\<rparr>\<rparr>"

definition classifyMelodic :: "Note list \<Rightarrow> ExtractedFeatures \<Rightarrow> ClassificationResult" where
  "classifyMelodic notes f =
     \<lparr>resultType = MELODIC, resultConfidence = 0.7,
      resultFeatures = noFeatures
        \<lparr>style := Some (if anySlur f \<and> avgDuration f > 1.0 then Cantabile
                         else if durationVariance f > 0.4 then Expressive
                         else if anySlur f then Lyrical
                         else Neutral)\<rparr>\<rparr>"

subsection \<open>The decision tree\<close>

text \<open>
  The tests of \<^verbatim>\<open>classifyPattern\<close> in the order of the source; the first that matches returns.
  The tests from the repeated-note test on are \<open>classifyTail\<close>.
\<close>

definition leapTest :: "Note list \<Rightarrow> ExtractedFeatures \<Rightarrow> bool" where
  "leapTest notes f =
     (maxInterval f > 4 \<and> real (directionChanges f) > real (length notes) * 0.4)"

definition classifyRest :: "Note list \<Rightarrow> ExtractedFeatures \<Rightarrow> ClassificationResult" where
  "classifyRest notes f =
     (if leapTest notes f then classifyLeap notes f
      else if anySlur f \<or> durationVariance f > 0.3 then classifyMelodic notes f
      else \<lparr>resultType = UNKNOWN, resultConfidence = 0.5, resultFeatures = noFeatures\<rparr>)"

definition classifyTail :: "Note list \<Rightarrow> ExtractedFeatures \<Rightarrow> ClassificationResult" where
  "classifyTail notes f =
     (if pitchEntropy f < 0.5
      then (case detectRepeated notes f of
              Some repeated \<Rightarrow> repeated
            | None \<Rightarrow> classifyRest notes f)
      else classifyRest notes f)"

definition classifyPattern :: "Note list \<Rightarrow> ExtractedFeatures \<Rightarrow> ClassificationResult" where
  "classifyPattern notes f =
     (case detectOrnamented notes f of
        Some ornamented \<Rightarrow> ornamented
      | None \<Rightarrow>
     (case detectAlberti notes f of
        Some alberti \<Rightarrow> alberti
      | None \<Rightarrow>
     (case detectOstinato notes f of
        Some ostinato \<Rightarrow> ostinato
      | None \<Rightarrow>
     (case detectPolyphonic notes f of
        Some polyphonic \<Rightarrow> polyphonic
      | None \<Rightarrow>
          if avgSimultaneity f \<ge> 2 \<or> maxSimultaneity f \<ge> 3 then classifyChordal notes f
          else if stepwiseRatio f \<ge> 0.8 \<and> determineDirection f \<noteq> Mixed
          then classifyScale notes f (determineDirection f)
          else if leapRatio f \<ge> 0.5 \<and> belongsToChord (pitches f) then classifyArpeggio notes f
          else classifyTail notes f))))"

subsection \<open>Windowing and post-processing\<close>

definition baseWindowSize :: nat where "baseWindowSize = 8"

text \<open>
  The window size is decided by comparing an average of durations with constants, so the sum
  (the \<^verbatim>\<open>reduce\<close> from 0, left to right) and the quotient are rounded as the machine rounds
  them.
\<close>

definition addDuration :: "real \<Rightarrow> Note \<Rightarrow> real" where
  "addDuration acc n = fl (acc + duration n)"

definition adaptWindowSize :: "Note list \<Rightarrow> nat \<Rightarrow> nat" where
  "adaptWindowSize notes startIdx =
     (let lookAhead = min 16 (length notes - startIdx)
      in if lookAhead < 4 then lookAhead
         else
           let window = take lookAhead (drop startIdx notes);
               totalDuration = foldl addDuration 0 window;
               avgDuration = fl (totalDuration / real (length window))
           in if avgDuration < 0.25 then 16
              else if avgDuration < 0.5 then 12
              else if avgDuration > 2 then 4
              else baseWindowSize)"

text \<open>
  The segment of the window \<open>[i, windowEnd)\<close>. The source finds its bounds with
  \<^verbatim>\<open>notes.indexOf\<close> on the first and the last note of the window, which compares object
  identity: the notes of a stream being distinct objects, these are \<open>i\<close> and \<open>windowEnd - 1\<close>.
\<close>

definition windowSegment :: "Note list \<Rightarrow> nat \<Rightarrow> nat \<Rightarrow> PatternSegment" where
  "windowSegment notes i windowEnd =
     (let window = take (windowEnd - i) (drop i notes);
          result = classifyPattern window (extractFeatures window)
      in \<lparr>startIndex = int i, endIndex = int (windowEnd - 1), patternType = resultType result,
          confidence = resultConfidence result, features = resultFeatures result\<rparr>)"

function recognizeLoop :: "Note list \<Rightarrow> nat \<Rightarrow> PatternSegment list \<Rightarrow> PatternSegment list" where
  "recognizeLoop notes i segments =
     (if i < length notes then
        (if min (i + adaptWindowSize notes i) (length notes) - i < 2
         then recognizeLoop notes (i + 1) segments
         else recognizeLoop notes (i + max 1 (adaptWindowSize notes i div 2))
                (segments @
                   [windowSegment notes i (min (i + adaptWindowSize notes i) (length notes))]))
      else segments)"
  by pat_completeness auto
termination
  by (relation "measure (\<lambda>(notes, i, segments). length notes - i)") auto

declare recognizeLoop.simps [simp del]

text \<open>The walk of \<^verbatim>\<open>postProcess\<close> with the running segment \<open>current\<close>.\<close>

fun mergeWalk ::
  "PatternSegment \<Rightarrow> PatternSegment list \<Rightarrow> PatternSegment list \<Rightarrow> PatternSegment list" where
  "mergeWalk current [] merged = merged @ [current]"
| "mergeWalk current (next # rest) merged =
     (if patternType current = patternType next \<or> endIndex current - startIndex current < 3
      then mergeWalk
             (current\<lparr>endIndex := endIndex next,
                      confidence := max (confidence current) (confidence next)\<rparr>)
             rest merged
      else mergeWalk next rest (merged @ [current]))"

definition postProcess :: "PatternSegment list \<Rightarrow> Note list \<Rightarrow> PatternSegment list" where
  "postProcess segments notes =
     (case segments of [] \<Rightarrow> [] | current # rest \<Rightarrow> mergeWalk current rest [])"

definition recognizeHandPatterns :: "Note list \<Rightarrow> Hand \<Rightarrow> PatternSegment list" where
  "recognizeHandPatterns notes h =
     (if length notes = 0 then [] else postProcess (recognizeLoop notes 0 []) notes)"


section \<open>Example streams\<close>

text \<open>
  A note without slur, grace or ornament, of duration 1 and voice 1, on staff 1 for the right
  hand and staff 2 for the left, as the parser derives the hand from the staff.
\<close>

definition plainNote :: "Hand \<Rightarrow> int \<Rightarrow> real \<Rightarrow> int \<Rightarrow> Note" where
  "plainNote h m b p =
     \<lparr>pitch = p, duration = 1, voice = 1, staff = (if h = RH then 1 else 2), hand = h,
      measureNumber = m, beat = b, isGrace = False, hasSlur = False, hasTrill = False,
      hasMordent = False, hasTurn = False\<rparr>"

definition plainSegment :: "int \<Rightarrow> int \<Rightarrow> PatternType \<Rightarrow> real \<Rightarrow> PatternSegment" where
  "plainSegment s e t c =
     \<lparr>startIndex = s, endIndex = e, patternType = t, confidence = c, features = noFeatures\<rparr>"

text \<open>The number of notes of a segment, whose bounds are inclusive.\<close>

definition noteCount :: "PatternSegment \<Rightarrow> int" where
  "noteCount seg = endIndex seg - startIndex seg + 1"

text \<open>Four right-hand notes of the first measure, and two segments that split them.\<close>

definition measureOneNotes :: "Note list" where
  "measureOneNotes =
     [plainNote RH 1 0 60, plainNote RH 1 1 62, plainNote RH 1 2 72, plainNote RH 1 3 64]"

definition twoSegments :: "PatternSegment list" where
  "twoSegments = [plainSegment 0 1 SCALE 0.92, plainSegment 2 3 LEAP 0.8]"

text \<open>
  The tests that \<^verbatim>\<open>classifyPattern\<close> makes before the LEAP test, all failing: the four detectors
  return nothing, and the chordal, scale, arpeggio and repeated-note tests do not match.
\<close>

definition reachesLeapTest :: "Note list \<Rightarrow> ExtractedFeatures \<Rightarrow> bool" where
  "reachesLeapTest notes f =
     (detectOrnamented notes f = None \<and> detectAlberti notes f = None
      \<and> detectOstinato notes f = None \<and> detectPolyphonic notes f = None
      \<and> \<not> (avgSimultaneity f \<ge> 2 \<or> maxSimultaneity f \<ge> 3)
      \<and> \<not> (stepwiseRatio f \<ge> 0.8 \<and> determineDirection f \<noteq> Mixed)
      \<and> \<not> (leapRatio f \<ge> 0.5 \<and> belongsToChord (pitches f))
      \<and> \<not> (pitchEntropy f < 0.5 \<and> detectRepeated notes f \<noteq> None))"

text \<open>
  A stream of plain notes of one hand in one measure, one note per beat, so that no two notes
  share a beat.
\<close>

definition streamOf :: "Hand \<Rightarrow> int list \<Rightarrow> Note list" where
  "streamOf h ps = map (\<lambda>(i, p). plainNote h 1 (real i) p) (enumerate 0 ps)"

text \<open>Two windows of five notes: two and three changes of direction.\<close>

definition zigzag :: "Note list" where
  "zigzag = streamOf RH [60, 67, 62, 63, 64]"

definition sawtooth :: "Note list" where
  "sawtooth = streamOf RH [60, 67, 62, 69, 64]"

section \<open>Notions used in the statements\<close>

text \<open>
  What the inner loop of the forward pass computes for one predecessor finger: nothing when
  the previous layer has no state for it or the transition costs more than 500, else the cost
  of the path through it.
\<close>

definition viaPredecessor ::
  "Difficulty \<Rightarrow> Note list \<Rightarrow> nat \<Rightarrow> int \<Rightarrow> PatternType \<Rightarrow> Hand \<Rightarrow> HandPosition \<Rightarrow>
   DifficultyConfig \<Rightarrow> bool \<Rightarrow> DPLayer \<Rightarrow> int \<Rightarrow> real option" where
  "viaPredecessor level notes i toFinger patternContext h pos config inScale prevLayer fromFinger =
     (case map_of prevLayer fromFinger of
        None \<Rightarrow> None
      | Some prevState \<Rightarrow>
          (let transitionCost = computeTransitionCost level (notes ! (i - 1)) fromFinger
                                  (notes ! i) toFinger patternContext h pos config inScale
           in if cost transitionCost > 500 then None
              else Some (fl (cost prevState + cost transitionCost))))"

text \<open>The state that the forward pass stores for the result of a scan.\<close>

definition stateOf :: "Total \<times> (nat \<times> int) option \<times> string list \<Rightarrow> DPState" where
  "stateOf b = (case b of (m, p, r) \<Rightarrow>
      \<lparr>cost = (case m of Finite c \<Rightarrow> c | Infinity \<Rightarrow> 0), reasons = r, parent = p\<rparr>)"

text \<open>
  A layer that holds a state for each of the five fingers, in the order 1 to 5, each parent
  pointer naming a finger.
\<close>

definition fullLayer :: "DPLayer \<Rightarrow> bool" where
  "fullLayer L = (map fst L = fingers
     \<and> (\<forall>e \<in> set L. case parent (snd e) of None \<Rightarrow> True | Some (j, g) \<Rightarrow> g \<in> set fingers))"

text \<open>Whether note \<open>i\<close> lies in a detected scale segment, as the forward pass computes it.\<close>

definition inScaleAt :: "Note list \<Rightarrow> nat \<Rightarrow> bool" where
  "inScaleAt notes i =
     list_ex (\<lambda>seg. i \<ge> segStart seg \<and> i \<le> segEnd seg) (detectScaleSegments notes)"

text \<open>
  The transition cost into note \<open>i\<close>, and the cost of the path into \<open>(i, toFinger)\<close> through a
  predecessor finger, with the arguments the forward pass gives them.
\<close>

definition transitionAt ::
  "Difficulty \<Rightarrow> Note list \<Rightarrow> PatternSegment list \<Rightarrow> Hand \<Rightarrow> nat \<Rightarrow> int \<Rightarrow> int \<Rightarrow> CostResult" where
  "transitionAt level notes patterns h i fromFinger toFinger =
     computeTransitionCost level (notes ! (i - 1)) fromFinger (notes ! i) toFinger
       (getPatternContext notes i patterns) h (analyzeHandPositions notes h ! i)
       (getDifficultyConfig level) (inScaleAt notes i)"

definition pathCostVia ::
  "Difficulty \<Rightarrow> Note list \<Rightarrow> PatternSegment list \<Rightarrow> Hand \<Rightarrow> nat \<Rightarrow> int \<Rightarrow> int \<Rightarrow> real option" where
  "pathCostVia level notes patterns h i toFinger fromFinger =
     viaPredecessor level notes i toFinger (getPatternContext notes i patterns) h
       (analyzeHandPositions notes h ! i) (getDifficultyConfig level) (inScaleAt notes i)
       (forwardPass level notes patterns h ! (i - 1)) fromFinger"

text \<open>The \<open>k\<close>-th chunk of a long stream, and the number of chunks.\<close>

definition chunkAt :: "Note list \<Rightarrow> nat \<Rightarrow> Note list" where
  "chunkAt notes k = take chunkSize (drop ((chunkSize - overlapSize) * k) notes)"

definition chunkCount :: "Note list \<Rightarrow> nat" where
  "chunkCount notes = (length notes + 27) div 28"

text \<open>The list that the merge loop of \<^verbatim>\<open>planFingering\<close> builds, by recursion on the notes.\<close>

fun mergeList :: "int list \<Rightarrow> int list \<Rightarrow> Note list \<Rightarrow> nat \<Rightarrow> nat \<Rightarrow> int list" where
  "mergeList frh flh [] r l = []"
| "mergeList frh flh (n # ns) r l =
     (if hand n = RH then orDefault frh r 0 3 # mergeList frh flh ns (r + 1) l
      else orDefault flh l 0 3 # mergeList frh flh ns r (l + 1))"

text \<open>Sixty-five right-hand notes followed by one left-hand note.\<close>

definition longStream :: "Note list" where
  "longStream = replicate 65 (plainNote RH 1 0 60) @ [plainNote LH 1 0 48]"

text \<open>
  A list of segments in which each segment starts after the one before it and no later than
  one past its end: the starts increase and no index is skipped between two neighbours.
\<close>

fun chained :: "PatternSegment list \<Rightarrow> bool" where
  "chained (a # b # rest) =
     (startIndex a < startIndex b \<and> startIndex b \<le> endIndex a + 1 \<and> chained (b # rest))"
| "chained _ = True"

text \<open>
  A stream of one note, and four slow notes (three beats each, two per measure) of which the
  first carries a trill.
\<close>

definition soloNote :: "Note list" where
  "soloNote = [plainNote RH 1 0 60]"

definition slowTrill :: "Note list" where
  "slowTrill =
     [(plainNote RH 1 0 60)\<lparr>duration := 3, hasTrill := True\<rparr>,
      (plainNote RH 1 3 62)\<lparr>duration := 3\<rparr>,
      (plainNote RH 2 0 64)\<lparr>duration := 3\<rparr>,
      (plainNote RH 2 3 65)\<lparr>duration := 3\<rparr>]"











section \<open>Properties\<close>

subsection \<open>Rounding\<close>

text \<open>
  The exponent is the floor of the binary logarithm; rounding is odd, monotone and leaves
  every double as it is, among them the integers up to \<open>2^53\<close>.
\<close>

lemma binade_log: "0 < x \<Longrightarrow> binade x = \<lfloor>log 2 x\<rfloor>"
proof (induction x rule: binade.induct)
  case (1 x)
  show ?case
  proof (cases "2 \<le> x")
    case True
    then have "binade x = binade (x / 2) + 1" using 1(3) by (subst binade.simps) simp
    also have "binade (x / 2) = \<lfloor>log 2 (x / 2)\<rfloor>" using 1(1) 1(3) True by simp
    also have "\<dots> = \<lfloor>log 2 x\<rfloor> - 1" using 1(3) by (simp add: log_divide)
    finally show ?thesis by simp
  next
    case False
    show ?thesis
    proof (cases "x < 1")
      case True
      then have "binade x = binade (x * 2) - 1" using 1(3) False by (subst binade.simps) simp
      also have "binade (x * 2) = \<lfloor>log 2 (x * 2)\<rfloor>" using 1(2) 1(3) True False by simp
      also have "\<dots> = \<lfloor>log 2 x\<rfloor> + 1" using 1(3) by (simp add: log_mult)
      finally show ?thesis by simp
    next
      case b: False
      then have "binade x = 0" using 1(3) False by (subst binade.simps) simp
      moreover have "0 \<le> log 2 x" "log 2 x < 1" using b False by simp_all
      ultimately show ?thesis by linarith
    qed
  qed
qed

lemma binade_bounds:
  assumes "0 < x"
  shows "(2::real) powi binade x \<le> x" and "x < (2::real) powi (binade x + 1)"
proof -
  have e: "binade x = \<lfloor>log 2 x\<rfloor>" using assms by (rule binade_log)
  have "(2::real) powi binade x = 2 powr (of_int (binade x))" by (simp add: powr_real_of_int')
  also have "\<dots> \<le> 2 powr (log 2 x)" unfolding e by (intro powr_mono) simp_all
  also have "\<dots> = x" using assms by simp
  finally show "2 powi binade x \<le> x" .
  have "x = 2 powr (log 2 x)" using assms by simp
  also have "\<dots> < 2 powr (of_int (binade x + 1))" unfolding e
  proof (intro powr_less_mono)
    show "log 2 x < of_int (\<lfloor>log 2 x\<rfloor> + 1)" by linarith
  qed simp
  also have "\<dots> = 2 powi (binade x + 1)" using powr_real_of_int' [of 2 "binade x + 1"] by simp
  finally show "x < 2 powi (binade x + 1)" .
qed

lemma binade_unique:
  assumes "(2::real) powi e \<le> x" "x < (2::real) powi (e + 1)"
  shows "binade x = e"
proof -
  have pos: "0 < x" using assms(1) by (smt (verit) zero_less_power_int)
  have "2 powr (of_int e) \<le> x" "x < 2 powr (of_int (e + 1))"
    using assms powr_real_of_int' [of 2 e] powr_real_of_int' [of 2 "e + 1"] by simp_all
  then have "of_int e \<le> log 2 x" "log 2 x < of_int (e + 1)"
    using pos by (simp_all add: le_log_iff log_less_iff)
  then have "\<lfloor>log 2 x\<rfloor> = e" by linarith
  then show ?thesis using binade_log [OF pos] by simp
qed

lemma roundEven_int [simp]: "roundEven (of_int k) = k"
  by (simp add: roundEven_def)

lemma roundEven_mono: "x \<le> y \<Longrightarrow> roundEven x \<le> roundEven y"
proof -
  assume a: "x \<le> y"
  have f: "\<lfloor>x\<rfloor> \<le> \<lfloor>y\<rfloor>" using a by (rule floor_mono)
  show ?thesis
  proof (cases "\<lfloor>x\<rfloor> = \<lfloor>y\<rfloor>")
    case True
    then show ?thesis using a by (auto simp: roundEven_def Let_def)
  next
    case False
    then have "\<lfloor>x\<rfloor> + 1 \<le> \<lfloor>y\<rfloor>" using f by simp
    moreover have "roundEven x \<le> \<lfloor>x\<rfloor> + 1" by (auto simp: roundEven_def Let_def)
    moreover have "\<lfloor>y\<rfloor> \<le> roundEven y" by (auto simp: roundEven_def Let_def)
    ultimately show ?thesis by linarith
  qed
qed

lemma roundEven_minus: "roundEven (- y) = - roundEven y"
proof (cases "y \<in> \<int>")
  case True
  then obtain k where "y = of_int k" by (auto elim: Ints_cases)
  then show ?thesis using roundEven_int [of "- k"] by simp
next
  case False
  then have f: "\<lfloor>- y\<rfloor> = - \<lfloor>y\<rfloor> - 1"
  proof -
    have "y \<noteq> of_int \<lfloor>y\<rfloor>" using False by (metis Ints_of_int)
    then show ?thesis using ceiling_altdef [of y] by (simp add: ceiling_def)
  qed
  have "even (- \<lfloor>y\<rfloor> - 1) \<longleftrightarrow> odd \<lfloor>y\<rfloor>" by simp
  then show ?thesis unfolding roundEven_def Let_def f by (auto simp: algebra_simps)
qed

lemma fl_minus: "fl (- x) = - fl x"
  by (simp add: fl_def Let_def roundEven_minus)

lemma fl_0 [simp]: "fl 0 = 0"
  by (simp add: fl_def)

text \<open>The numbers that are doubles: an integer of at most 53 bits times a power of two.\<close>

lemma fl_repr_pos:
  assumes "0 < m" "m \<le> 2 ^ 53"
  shows "fl (of_int m * 2 powi q) = of_int m * 2 powi q"
proof -
  define x :: real where "x = of_int m * 2 powi q"
  define e where "e = binade (of_int m)"
  have mpos: "0 < (of_int m :: real)" using assms by simp
  have b: "(2::real) powi e \<le> of_int m" "of_int m < (2::real) powi (e + 1)"
    unfolding e_def using binade_bounds [OF mpos] by simp_all
  have xpos: "0 < x" unfolding x_def using mpos by (simp add: zero_less_power_int)
  have "2 powi (e + q) \<le> x" "x < 2 powi (e + q + 1)"
    unfolding x_def using b by (simp_all add: power_int_add)
  then have bx: "binade x = e + q" by (rule binade_unique)
  have e53: "e \<le> 53"
  proof (rule ccontr)
    assume "\<not> e \<le> 53"
    then have "54 \<le> e" by simp
    then have "(2::real) powi 54 \<le> 2 powi e" by (intro power_int_increasing) simp_all
    then have "(2::real) ^ 54 \<le> of_int m" using b(1) by (simp add: power_int_def)
    moreover have "(of_int m :: real) \<le> 2 ^ 53" using assms(2) by (metis of_int_le_iff of_int_numeral of_int_power)
    ultimately show False by simp
  qed
  define u :: real where "u = 2 powi (e + q - 52)"
  have upos: "0 < u" unfolding u_def by (simp add: zero_less_power_int)
  have xu: "x / u = of_int m * 2 powi (52 - e)"
    unfolding x_def u_def by (simp add: power_int_diff power_int_add field_simps)
  have "\<exists>k. x / u = of_int k"
  proof (cases "e \<le> 52")
    case True
    then have "(2::real) powi (52 - e) = 2 ^ nat (52 - e)" by (simp add: power_int_def)
    then have "x / u = of_int (m * 2 ^ nat (52 - e))" using xu by simp
    then show ?thesis ..
  next
    case False
    then have e: "e = 53" using e53 by simp
    then have "(2::real) ^ 53 \<le> of_int m" using b(1) by (simp add: power_int_def)
    then have "(2::int) ^ 53 \<le> m" by (metis of_int_le_iff of_int_numeral of_int_power)
    then have "m = 2 ^ 53" using assms(2) by simp
    then have "x / u = of_int (2 ^ 52)" using xu e by (simp add: power_int_def)
    then show ?thesis ..
  qed
  then obtain k where k: "x / u = of_int k" ..
  have "fl x = of_int (roundEven (x / u)) * u"
    using xpos bx by (simp add: fl_def u_def Let_def)
  also have "\<dots> = x" using upos by (simp add: k) (metis k nonzero_eq_divide_eq less_irrefl)
  finally show ?thesis by (simp add: x_def)
qed

lemma fl_repr:
  assumes "\<bar>m\<bar> \<le> 2 ^ 53"
  shows "fl (of_int m * 2 powi q) = of_int m * 2 powi q"
proof -
  consider "m = 0" | "0 < m" | "m < 0" by linarith
  then show ?thesis
  proof cases
    case 1 then show ?thesis by simp
  next
    case 2 then show ?thesis using assms by (intro fl_repr_pos) simp_all
  next
    case 3
    then have "fl (of_int (- m) * 2 powi q) = of_int (- m) * 2 powi q"
      using assms by (intro fl_repr_pos) simp_all
    then show ?thesis using fl_minus [of "of_int m * 2 powi q"] by simp
  qed
qed

lemma fl_of_int: "\<bar>m\<bar> \<le> 2 ^ 53 \<Longrightarrow> fl (of_int m) = of_int m"
  using fl_repr [of m 0] by simp

text \<open>Every value of \<open>fl\<close> is such a number.\<close>

lemma roundEven_bounds:
  assumes "of_int a \<le> y" "y \<le> of_int b"
  shows "a \<le> roundEven y" "roundEven y \<le> b"
  using roundEven_mono [OF assms(1)] roundEven_mono [OF assms(2)] by simp_all

lemma fl_pos_form:
  assumes "0 < x"
  shows "\<exists>m. fl x = of_int m * 2 powi (binade x - 52) \<and> 2 ^ 52 \<le> m \<and> m \<le> 2 ^ 53"
proof -
  define u :: real where "u = 2 powi (binade x - 52)"
  have upos: "0 < u" unfolding u_def by (simp add: zero_less_power_int)
  have "u * 2 ^ 52 = 2 powi binade x" "u * 2 ^ 53 = 2 powi (binade x + 1)"
    unfolding u_def by (simp_all add: power_int_diff power_int_add)
  then have "u * 2 ^ 52 \<le> x" "x \<le> u * 2 ^ 53" using binade_bounds [OF assms] by simp_all
  then have "of_int (2 ^ 52) \<le> x / u" "x / u \<le> of_int (2 ^ 53)"
    using upos by (simp_all add: field_simps)
  then have "2 ^ 52 \<le> roundEven (x / u)" "roundEven (x / u) \<le> 2 ^ 53"
    by (rule roundEven_bounds)+
  moreover have "fl x = of_int (roundEven (x / u)) * u"
    using assms by (simp add: fl_def u_def Let_def)
  ultimately show ?thesis unfolding u_def by blast
qed

lemma fl_idem [simp]: "fl (fl x) = fl x"
proof -
  have pos: "fl (fl x) = fl x" if p: "0 < x" for x
  proof -
    obtain m where "fl x = of_int m * 2 powi (binade x - 52)" "2 ^ 52 \<le> m" "m \<le> 2 ^ 53"
      using fl_pos_form [OF p] by blast
    then show ?thesis using fl_repr [of m "binade x - 52"] by simp
  qed
  consider "x = 0" | "0 < x" | "x < 0" by linarith
  then show ?thesis
  proof cases
    case 1 then show ?thesis by simp
  next
    case 2 then show ?thesis by (rule pos)
  next
    case 3
    then have "fl (fl (- x)) = fl (- x)" by (intro pos) simp
    then show ?thesis by (simp add: fl_minus)
  qed
qed

lemma fl_pos: "0 < x \<Longrightarrow> 0 < fl x"
proof -
  assume a: "0 < x"
  obtain m where "fl x = of_int m * 2 powi (binade x - 52)" "2 ^ 52 \<le> m"
    using fl_pos_form [OF a] by blast
  moreover from this have "0 < (of_int m :: real)" by simp
  ultimately show ?thesis by (simp add: zero_less_power_int)
qed

lemma fl_mono_pos:
  assumes "0 < x" "x \<le> y"
  shows "fl x \<le> fl y"
proof -
  have ypos: "0 < y" using assms by simp
  have le: "binade x \<le> binade y"
    using assms by (simp add: binade_log floor_mono)
  define u where "u = (2::real) powi (binade x - 52)"
  define v where "v = (2::real) powi (binade y - 52)"
  have upos: "0 < u" and vpos: "0 < v" unfolding u_def v_def by (simp_all add: zero_less_power_int)
  have fx: "fl x = of_int (roundEven (x / u)) * u" using assms by (simp add: fl_def u_def Let_def)
  have fy: "fl y = of_int (roundEven (y / v)) * v" using ypos by (simp add: fl_def v_def Let_def)
  show ?thesis
  proof (cases "binade x = binade y")
    case True
    then have "u = v" by (simp add: u_def v_def)
    moreover have "roundEven (x / u) \<le> roundEven (y / u)"
      using assms upos by (intro roundEven_mono) (simp add: divide_right_mono)
    ultimately show ?thesis using fx fy upos by simp
  next
    case False
    then have lt: "binade x + 1 \<le> binade y" using le by simp
    obtain m where m: "fl x = of_int m * u" "m \<le> 2 ^ 53"
      using fl_pos_form [OF assms(1)] unfolding u_def by blast
    obtain k where k: "fl y = of_int k * v" "2 ^ 52 \<le> k"
      using fl_pos_form [OF ypos] unfolding v_def by blast
    have "fl x \<le> 2 ^ 53 * u" using m upos by (simp add: mult_right_mono) 
    also have "\<dots> = 2 powi (binade x + 1)" unfolding u_def by (simp add: power_int_diff power_int_add)
    also have "\<dots> \<le> 2 powi binade y" using lt by (intro power_int_increasing) simp_all
    also have "\<dots> = 2 ^ 52 * v" unfolding v_def by (simp add: power_int_diff)
    also have "\<dots> \<le> fl y" using k vpos by (simp add: mult_right_mono)
    finally show ?thesis .
  qed
qed

lemma fl_mono: "x \<le> y \<Longrightarrow> fl x \<le> fl y"
proof -
  assume a: "x \<le> y"
  consider "0 < x" | "y < 0" | "x \<le> 0" "0 \<le> y" by linarith
  then show ?thesis
  proof cases
    case 1 then show ?thesis using a by (rule fl_mono_pos)
  next
    case 2
    then have "fl (- y) \<le> fl (- x)" using a by (intro fl_mono_pos) simp_all
    then show ?thesis by (simp add: fl_minus)
  next
    case 3
    have "fl x \<le> 0"
    proof (cases "x = 0")
      case False
      then have "0 < fl (- x)" using 3 by (intro fl_pos) simp
      then show ?thesis by (simp add: fl_minus)
    qed simp
    moreover have "0 \<le> fl y"
    proof (cases "y = 0")
      case False
      then have "0 < fl y" using 3 by (intro fl_pos) simp
      then show ?thesis by simp
    qed simp
    ultimately show ?thesis by simp
  qed
qed

lemma fl_numeral [simp]:
  "(numeral n :: int) \<le> 9007199254740992 \<Longrightarrow> fl (numeral n) = numeral n"
  using fl_of_int [of "numeral n"] by simp

lemma fl_neg_numeral [simp]:
  "(numeral n :: int) \<le> 9007199254740992 \<Longrightarrow> fl (- numeral n) = - numeral n"
  using fl_of_int [of "- numeral n"] by simp

lemma fl_1 [simp]: "fl 1 = 1"
  using fl_of_int [of 1] by simp

lemma fl_le_int: "x \<le> of_int k \<Longrightarrow> \<bar>k\<bar> \<le> 2 ^ 53 \<Longrightarrow> fl x \<le> of_int k"
  using fl_mono [of x "of_int k"] fl_of_int [of k] by simp

subsection \<open>Pattern context of a note\<close>

text \<open>
  Claim C4 says that the pattern context of note \<open>i\<close> is the type of the segment whose index
  bounds contain \<open>i\<close>, whatever the note's measure number. The code asks first whether the
  measure number lies within the index bounds of a segment. For the third note (index 2) of
  four notes of measure 1, with a SCALE segment over the indices 0..1 and a LEAP segment over
  2..3, the context is SCALE: measure 1 lies within 0..1. The segment that contains index 2 is
  the LEAP one, and the same note in measure 9 gets LEAP.
\<close>

theorem getPatternContext_reads_measure:
  "getPatternContext measureOneNotes 2 twoSegments = SCALE
   \<and> find (\<lambda>p. startIndex p \<le> 2 \<and> 2 \<le> endIndex p) twoSegments
       = Some (plainSegment 2 3 LEAP 0.8)
   \<and> getPatternContext (map (\<lambda>n. n\<lparr>measureNumber := 9\<rparr>) measureOneNotes) 2 twoSegments = LEAP"
  by (simp add: getPatternContext_def measureOneNotes_def twoSegments_def plainNote_def
      plainSegment_def)

subsection \<open>Merging in post-processing\<close>

text \<open>
  Claim C7 as stated: the running segment is merged with the next one exactly when the two have
  the same type or the running segment has fewer than 3 notes. It fails for a running segment
  of exactly 3 notes (indices 0..2) followed by a segment of another type: the code merges them.
\<close>

theorem postProcess_merges_three_notes:
  "patternType (plainSegment 0 2 SCALE 0.92) \<noteq> patternType (plainSegment 1 2 UNKNOWN 0.5)
   \<and> \<not> noteCount (plainSegment 0 2 SCALE 0.92) < 3
   \<and> postProcess [plainSegment 0 2 SCALE 0.92, plainSegment 1 2 UNKNOWN 0.5] []
       = [plainSegment 0 2 SCALE 0.92]"
  by (simp add: postProcess_def plainSegment_def noteCount_def)

text \<open>
  Claim C7 as amended: the walk merges the running segment with the next one exactly when the
  two have the same type or the running segment has fewer than 4 notes (its end index less its
  start index is below 3); the merged segment keeps the start index (and the features) of the
  running segment, takes the end index of the next and the larger of the two confidences, and
  stays the running segment. Otherwise the running segment is emitted and the next one becomes
  the running segment.
\<close>

theorem mergeWalk_step:
  "mergeWalk current (next # rest) merged =
     (if patternType current = patternType next \<or> noteCount current < 4
      then mergeWalk
             \<lparr>startIndex = startIndex current, endIndex = endIndex next,
              patternType = patternType current,
              confidence = max (confidence current) (confidence next),
              features = features current\<rparr> rest merged
      else mergeWalk next rest (merged @ [current]))"
  by (cases current) (simp add: noteCount_def)

theorem mergeWalk_step_witness:
  "postProcess [plainSegment 0 2 SCALE 0.92, plainSegment 1 5 UNKNOWN 0.5,
                plainSegment 3 9 LEAP 0.8] []
     = [plainSegment 0 5 SCALE 0.92, plainSegment 3 9 LEAP 0.8]"
  unfolding postProcess_def list.case
  by (subst mergeWalk_step, simp add: noteCount_def plainSegment_def)+

subsection \<open>The LEAP test\<close>

lemmas feature_defs = streamOf_def plainNote_def extractFeatures_def Let_def
  computeSimultaneity_def countStep_def beatKey_def jsRound_def computeVariance_def
  computeEntropy_def entropyTerm_def

lemmas classify_defs = detectOrnamented_def detectAlberti_def detectOstinato_def
  detectPolyphonic_def detectRepeated_def firstOccurrences_def voiceBeats_def
  determineDirection_def belongsToChord_def pitchClasses_def jsRem_def classifyPattern_def
  classifyTail_def classifyRest_def leapTest_def classifyLeap_def classifyMelodic_def
  classifyScale_def classifyChordal_def classifyArpeggio_def ostinatoAt_def
  isAlternatingPattern_def alternatesAt_def

text \<open>The entropy of five distinct pitches is \<open>log 2 5\<close>, which is above one half.\<close>

lemma log5_half: "\<not> log 2 5 * 2 < 1"
proof -
  have "log 2 2 \<le> log 2 5" by (subst log_le_cancel_iff) simp_all
  then have "1 \<le> log 2 5" by simp
  then show ?thesis by linarith
qed

lemma log5_neg: "log 2 (1 / 5) = - log 2 5"
  by (simp add: log_divide)

lemma zigzag_features:
  "extractFeatures zigzag =
     \<lparr>pitches = [60, 67, 62, 63, 64], intervals = [7, - 5, 1, 1], pitchEntropy = log 2 5,
      ascendingRatio = 3 / 4, descendingRatio = 1 / 4, maxInterval = 7, avgInterval = 7 / 2,
      intervalVariance = ((7 / 2)\<^sup>2 + ((3 / 2)\<^sup>2 + 2 * (5 / 2)\<^sup>2)) / 4,
      stepwiseRatio = 1 / 2, leapRatio = 1 / 2, directionChanges = 2,
      simultaneity = [1, 1, 1, 1, 1], avgSimultaneity = 1, maxSimultaneity = 1,
      durationVariance = 0, avgDuration = 1, anySlur = False, hasOrnament = False,
      hasGrace = False, firstStaff = 1\<rparr>"
  by (simp add: zigzag_def feature_defs log5_neg)

lemma sawtooth_features:
  "extractFeatures sawtooth =
     \<lparr>pitches = [60, 67, 62, 69, 64], intervals = [7, - 5, 7, - 5], pitchEntropy = log 2 5,
      ascendingRatio = 1 / 2, descendingRatio = 1 / 2, maxInterval = 7, avgInterval = 6,
      intervalVariance = 1,
      stepwiseRatio = 0, leapRatio = 1, directionChanges = 3,
      simultaneity = [1, 1, 1, 1, 1], avgSimultaneity = 1, maxSimultaneity = 1,
      durationVariance = 0, avgDuration = 1, anySlur = False, hasOrnament = False,
      hasGrace = False, firstStaff = 1\<rparr>"
  by (simp add: sawtooth_def feature_defs log5_neg)

lemma zigzag_reaches: "reachesLeapTest zigzag (extractFeatures zigzag)"
  unfolding zigzag_features
  by (simp add: reachesLeapTest_def classify_defs zigzag_def streamOf_def plainNote_def log5_half)

lemma sawtooth_reaches: "reachesLeapTest sawtooth (extractFeatures sawtooth)"
  unfolding sawtooth_features
  by (simp add: reachesLeapTest_def classify_defs sawtooth_def streamOf_def plainNote_def
      log5_half)

lemma zigzag_unknown: "resultType (classifyPattern zigzag (extractFeatures zigzag)) = UNKNOWN"
  unfolding zigzag_features
  by (simp add: classify_defs zigzag_def streamOf_def plainNote_def log5_half)

lemma leap_after_failed_tests:
  assumes "reachesLeapTest notes f"
  shows "(resultType (classifyPattern notes f) = LEAP) = leapTest notes f"
  using assms
  by (auto simp: reachesLeapTest_def classifyPattern_def classifyTail_def classifyRest_def
      classifyLeap_def classifyMelodic_def split: option.splits)

text \<open>
  Claim C6 as stated: a window that reaches the LEAP test is labelled LEAP exactly when its
  largest interval exceeds 4 and its direction changes exceed 0.4 times the number of its
  intervals. The window 60, 67, 62, 63, 64 reaches the test; its largest interval is 7 and it
  has 2 direction changes, more than 0.4 times its 4 intervals; it is not labelled LEAP.
\<close>

theorem zigzag_not_leap:
  "reachesLeapTest zigzag (extractFeatures zigzag)
   \<and> maxList (map abs (computeIntervals (map pitch zigzag))) > 4
   \<and> real (countDirectionChanges (computeIntervals (map pitch zigzag)))
       > 0.4 * real (length (computeIntervals (map pitch zigzag)))
   \<and> length (computeIntervals (map pitch zigzag)) = length zigzag - 1
   \<and> resultType (classifyPattern zigzag (extractFeatures zigzag)) \<noteq> LEAP"
  using zigzag_reaches zigzag_unknown
  by (simp add: zigzag_def streamOf_def plainNote_def)

text \<open>
  Claim C6 as amended: a window that reaches the LEAP test is labelled LEAP exactly when its
  largest interval exceeds 4 and its direction changes exceed 0.4 times the number of its
  notes.
\<close>

theorem leap_test_counts_notes:
  assumes "reachesLeapTest notes (extractFeatures notes)"
  shows "(resultType (classifyPattern notes (extractFeatures notes)) = LEAP)
     = (maxList (map abs (computeIntervals (map pitch notes))) > 4
        \<and> real (countDirectionChanges (computeIntervals (map pitch notes)))
            > 0.4 * real (length notes))"
proof -
  have m: "maxInterval (extractFeatures notes)
             = maxList (map abs (computeIntervals (map pitch notes)))"
    by (simp add: extractFeatures_def Let_def)
  have d: "directionChanges (extractFeatures notes)
             = countDirectionChanges (computeIntervals (map pitch notes))"
    by (simp add: extractFeatures_def Let_def)
  show ?thesis
    unfolding leap_after_failed_tests [OF assms] leapTest_def m d
    by (simp add: mult.commute)
qed

theorem leap_test_counts_notes_witness:
  "reachesLeapTest sawtooth (extractFeatures sawtooth)
   \<and> resultType (classifyPattern sawtooth (extractFeatures sawtooth)) = LEAP"
  using sawtooth_reaches leap_test_counts_notes [OF sawtooth_reaches]
  by (simp add: sawtooth_def streamOf_def plainNote_def)

subsection \<open>Bounds on the transition cost\<close>

lemma cost_addCost [simp]: "cost (addCost a b) = fl (cost a + cost b)"
  by (simp add: addCost_def)

lemma addCost_le:
  assumes "cost a \<le> of_int A" "cost b \<le> of_int B" "\<bar>A + B\<bar> \<le> 2 ^ 53"
  shows "cost (addCost a b) \<le> of_int (A + B)"
  using assms fl_le_int [of "cost a + cost b" "A + B"] by simp

lemma cost_noCost [simp]: "cost noCost = 0"
  by (simp add: noCost_def)

lemma fingers_set: "g \<in> set fingers \<longleftrightarrow> g = 1 \<or> g = 2 \<or> g = 3 \<or> g = 4 \<or> g = 5"
  by (auto simp: fingers_def)

lemma ruleSameFinger_other: "g \<noteq> f \<Longrightarrow> cost (ruleSameFinger g f iv) = 0"
  by (simp add: ruleSameFinger_def)

lemma ruleRepeatedNote_le: "g \<noteq> f \<Longrightarrow> cost (ruleRepeatedNote g f iv) \<le> 0"
  by (simp add: ruleRepeatedNote_def)

lemma ruleProgression_le:
  "cost (ruleProgression (getDifficultyConfig level) g f iv h ctx sc) \<le> 80"
proof -
  have "fl (80 / 3) \<le> 80" "fl (10 / 3) \<le> 80"
    using fl_le_int [of "80 / 3" 80] fl_le_int [of "10 / 3" 80] by simp_all
  then show ?thesis
    by (cases level) (simp_all add: ruleProgression_def isFingerCrossing_def)
qed

lemma naturalSpan_nonneg: "0 \<le> getNaturalSpan a b"
  by (simp add: getNaturalSpan_def naturalSpans_def)

lemma ruleSpan_le: "cost (ruleSpan (getDifficultyConfig level) g f iv) \<le> 200"
proof -
  define s where "s = getNaturalSpan g f"
  define over where "over = \<bar>iv\<bar> - s"
  have s: "0 \<le> s" by (simp add: s_def naturalSpan_nonneg)
  have "over * 25 \<le> 200" if "over \<le> 5 - s" using that s by linarith
  moreover have "over * 12 \<le> 200" if "over \<le> 7 - s" using that s by linarith
  moreover have "over * 5 \<le> 200" if "over \<le> 9 - s" using that s by linarith
  ultimately show ?thesis
    unfolding ruleSpan_def Let_def s_def [symmetric] over_def [symmetric]
    by (cases level) (auto simp: not_less)
qed

lemma expected_range: "1 \<le> getExpectedFinger off h \<and> getExpectedFinger off h \<le> 5"
  by (simp add: getExpectedFinger_def)

lemma rulePosition_le: "f \<in> set fingers \<Longrightarrow> cost (rulePosition f note h pos sc) \<le> 32"
  using expected_range [of "pitch note - anchorPitch pos" h]
  by (auto simp: rulePosition_def Let_def fingers_set)

lemma computeScaleCost_le:
  "g \<noteq> f \<Longrightarrow> cost (computeScaleCost g f asc h (getDifficultyConfig level)) \<le> 20"
  by (cases level) (simp_all add: computeScaleCost_def Let_def)

lemma ruleScale_le:
  "g \<noteq> f \<Longrightarrow> cost (ruleScale (getDifficultyConfig level) g f iv h ctx sc) \<le> 20"
  using computeScaleCost_le [of g f "iv > 0" h level] by (simp add: ruleScale_def)

lemma ruleBlackKey_le: "cost (ruleBlackKey c f note) \<le> 35"
  by (simp add: ruleBlackKey_def)

lemma ruleWeakFinger_le: "cost (ruleWeakFinger level (getDifficultyConfig level) f note) \<le> 15"
  by (cases level) (simp_all add: ruleWeakFinger_def)

lemma ruleDifficulty_le: "cost (ruleDifficulty level g f iv) \<le> 0"
  by (cases level) (simp_all add: ruleDifficulty_def)

lemma ruleArpeggio_le: "cost (ruleArpeggio g f iv h ctx) \<le> 0"
  by (simp add: ruleArpeggio_def)

text \<open>A transition between two different fingers costs at most 382, whatever the notes.\<close>

lemma other_finger_cost:
  assumes "f \<in> set fingers" "g \<noteq> f"
  shows "cost (computeTransitionCost level prevNote g currNote f ctx h pos
                 (getDifficultyConfig level) sc) \<le> 382"
proof -
  define iv where "iv = pitch currNote - pitch prevNote"
  define config where "config = getDifficultyConfig level"
  define r1 where "r1 = ruleSameFinger g f iv"
  define r2 where "r2 = ruleRepeatedNote g f iv"
  define r3 where "r3 = ruleProgression config g f iv h ctx sc"
  define r4 where "r4 = ruleSpan config g f iv"
  define r5 where "r5 = rulePosition f currNote h pos sc"
  define r6 where "r6 = ruleScale config g f iv h ctx sc"
  define r7 where "r7 = ruleBlackKey config f currNote"
  define r8 where "r8 = ruleWeakFinger level config f currNote"
  define r9 where "r9 = ruleDifficulty level g f iv"
  define r10 where "r10 = ruleArpeggio g f iv h ctx"
  have b0: "cost noCost \<le> of_int 0" by simp
  have b1: "cost r1 \<le> of_int 0"
    unfolding r1_def using ruleSameFinger_other [OF assms(2), of iv] by simp
  have b2: "cost r2 \<le> of_int 0"
    unfolding r2_def using ruleRepeatedNote_le [OF assms(2), of iv] by simp
  have b3: "cost r3 \<le> of_int 80"
    unfolding r3_def config_def using ruleProgression_le [of level g f iv h ctx sc] by simp
  have b4: "cost r4 \<le> of_int 200"
    unfolding r4_def config_def using ruleSpan_le [of level g f iv] by simp
  have b5: "cost r5 \<le> of_int 32"
    unfolding r5_def using rulePosition_le [OF assms(1), of currNote h pos sc] by simp
  have b6: "cost r6 \<le> of_int 20"
    unfolding r6_def config_def using ruleScale_le [OF assms(2), of level iv h ctx sc] by simp
  have b7: "cost r7 \<le> of_int 35"
    unfolding r7_def using ruleBlackKey_le [of config f currNote] by simp
  have b8: "cost r8 \<le> of_int 15"
    unfolding r8_def config_def using ruleWeakFinger_le [of level f currNote] by simp
  have b9: "cost r9 \<le> of_int 0"
    unfolding r9_def using ruleDifficulty_le [of level g f iv] by simp
  have b10: "cost r10 \<le> of_int 0"
    unfolding r10_def using ruleArpeggio_le [of g f iv h ctx] by simp
  have s1: "cost (addCost noCost r1) \<le> of_int 0"
    using addCost_le [OF b0 b1] by simp
  have s2: "cost (addCost (addCost noCost r1) r2) \<le> of_int 0"
    using addCost_le [OF s1 b2] by simp
  have s3: "cost (addCost (addCost (addCost noCost r1) r2) r3) \<le> of_int 80"
    using addCost_le [OF s2 b3] by simp
  have s4: "cost (addCost (addCost (addCost (addCost noCost r1) r2) r3) r4) \<le> of_int 280"
    using addCost_le [OF s3 b4] by simp
  have s5: "cost (addCost (addCost (addCost (addCost (addCost noCost r1) r2) r3) r4) r5)
      \<le> of_int 312"
    using addCost_le [OF s4 b5] by simp
  have s6: "cost (addCost (addCost (addCost (addCost (addCost (addCost noCost r1) r2) r3) r4)
      r5) r6) \<le> of_int 332"
    using addCost_le [OF s5 b6] by simp
  have s7: "cost (addCost (addCost (addCost (addCost (addCost (addCost (addCost noCost r1) r2)
      r3) r4) r5) r6) r7) \<le> of_int 367"
    using addCost_le [OF s6 b7] by simp
  have s8: "cost (addCost (addCost (addCost (addCost (addCost (addCost (addCost (addCost noCost
      r1) r2) r3) r4) r5) r6) r7) r8) \<le> of_int 382"
    using addCost_le [OF s7 b8] by simp
  have s9: "cost (addCost (addCost (addCost (addCost (addCost (addCost (addCost (addCost
      (addCost noCost r1) r2) r3) r4) r5) r6) r7) r8) r9) \<le> of_int 382"
    using addCost_le [OF s8 b9] by simp
  have s10: "cost (addCost (addCost (addCost (addCost (addCost (addCost (addCost (addCost
      (addCost (addCost noCost r1) r2) r3) r4) r5) r6) r7) r8) r9) r10) \<le> of_int 382"
    using addCost_le [OF s9 b10] by simp
  have "computeTransitionCost level prevNote g currNote f ctx h pos config sc =
      addCost (addCost (addCost (addCost (addCost (addCost (addCost (addCost
      (addCost (addCost noCost r1) r2) r3) r4) r5) r6) r7) r8) r9) r10"
    unfolding computeTransitionCost_def Let_def iv_def [symmetric] r1_def r2_def r3_def r4_def
      r5_def r6_def r7_def r8_def r9_def r10_def
    by (simp del: cost_addCost)
  then show ?thesis using s10 by (simp add: config_def del: cost_addCost)
qed

subsection \<open>The scan for the best predecessor\<close>

lemma scanStep_via:
  "scanStep level notes i toFinger ctx h pos config sc prevLayer acc g =
     (case viaPredecessor level notes i toFinger ctx h pos config sc prevLayer g of
        None \<Rightarrow> acc
      | Some t \<Rightarrow>
          if lessTotal t (fst acc)
          then (Finite t, Some (i - 1, g),
                reasons (computeTransitionCost level (notes ! (i - 1)) g (notes ! i) toFinger
                           ctx h pos config sc))
          else acc)"
  by (cases acc) (simp add: scanStep_def viaPredecessor_def Let_def split: option.splits)

text \<open>
  A loop that replaces its running minimum only by a strictly smaller value ends with the
  first minimum of the list: everything before it is strictly larger, nothing after it is
  smaller.
\<close>

lemma first_min_fold:
  fixes via :: "'a \<Rightarrow> real option" and out :: "real \<Rightarrow> 'a \<Rightarrow> 'b"
  assumes step: "\<And>acc g. step acc g =
     (case via g of None \<Rightarrow> acc
      | Some t \<Rightarrow> if lessTotal t (fst acc) then (Finite t, out t g) else acc)"
  shows "case foldl step (Infinity, d) gs of
     (Infinity, y) \<Rightarrow> y = d \<and> (\<forall>g \<in> set gs. via g = None)
   | (Finite c, y) \<Rightarrow>
        (\<exists>ks g ms. gs = ks @ g # ms \<and> y = out c g \<and> via g = Some c
           \<and> (\<forall>g' \<in> set ks. \<forall>c'. via g' = Some c' \<longrightarrow> c < c')
           \<and> (\<forall>g' \<in> set ms. \<forall>c'. via g' = Some c' \<longrightarrow> c \<le> c'))"
proof (induction gs rule: rev_induct)
  case Nil
  show ?case by simp
next
  case (snoc x xs)
  obtain m y where acc: "foldl step (Infinity, d) xs = (m, y)"
    by (cases "foldl step (Infinity, d) xs") auto
  have unfold: "foldl step (Infinity, d) (xs @ [x]) = step (m, y) x"
    using acc by simp
  show ?case
  proof (cases "via x")
    case None
    have sv: "step (m, y) x = (m, y)" by (subst step) (simp add: None)
    show ?thesis
    proof (cases m)
      case Infinity
      with snoc acc None show ?thesis unfolding unfold sv by simp
    next
      case (Finite c)
      with snoc acc obtain ks g ms where inv:
        "xs = ks @ g # ms" "y = out c g" "via g = Some c"
        "\<forall>g' \<in> set ks. \<forall>c'. via g' = Some c' \<longrightarrow> c < c'"
        "\<forall>g' \<in> set ms. \<forall>c'. via g' = Some c' \<longrightarrow> c \<le> c'"
        by auto
      have "\<exists>ks' g' ms'. xs @ [x] = ks' @ g' # ms' \<and> y = out c g' \<and> via g' = Some c
           \<and> (\<forall>g'' \<in> set ks'. \<forall>c'. via g'' = Some c' \<longrightarrow> c < c')
           \<and> (\<forall>g'' \<in> set ms'. \<forall>c'. via g'' = Some c' \<longrightarrow> c \<le> c')"
        by (rule exI [of _ ks], rule exI [of _ g], rule exI [of _ "ms @ [x]"])
           (use inv None in auto)
      then show ?thesis unfolding unfold sv using Finite by simp
    qed
  next
    case (Some t)
    show ?thesis
    proof (cases m)
      case Infinity
      with snoc acc have none: "\<forall>g \<in> set xs. via g = None" by simp
      have sv: "step (m, y) x = (Finite t, out t x)"
        by (subst step) (simp add: Some Infinity)
      have "\<exists>ks g ms. xs @ [x] = ks @ g # ms \<and> out t x = out t g \<and> via g = Some t
           \<and> (\<forall>g' \<in> set ks. \<forall>c'. via g' = Some c' \<longrightarrow> t < c')
           \<and> (\<forall>g' \<in> set ms. \<forall>c'. via g' = Some c' \<longrightarrow> t \<le> c')"
        by (rule exI [of _ xs], rule exI [of _ x], rule exI [of _ "[]"]) (use none Some in simp)
      then show ?thesis unfolding unfold sv by simp
    next
      case (Finite c)
      with snoc acc obtain ks g ms where inv:
        "xs = ks @ g # ms" "y = out c g" "via g = Some c"
        "\<forall>g' \<in> set ks. \<forall>c'. via g' = Some c' \<longrightarrow> c < c'"
        "\<forall>g' \<in> set ms. \<forall>c'. via g' = Some c' \<longrightarrow> c \<le> c'"
        by auto
      show ?thesis
      proof (cases "t < c")
        case True
        have all: "\<forall>g' \<in> set xs. \<forall>c'. via g' = Some c' \<longrightarrow> t < c'"
        proof (intro ballI allI impI)
          fix g' c' assume g': "g' \<in> set xs" "via g' = Some c'"
          then have "c \<le> c'" using inv by auto
          with True show "t < c'" by simp
        qed
        have sv: "step (m, y) x = (Finite t, out t x)"
          by (subst step) (simp add: Some Finite True)
        have "\<exists>ks g ms. xs @ [x] = ks @ g # ms \<and> out t x = out t g \<and> via g = Some t
           \<and> (\<forall>g' \<in> set ks. \<forall>c'. via g' = Some c' \<longrightarrow> t < c')
           \<and> (\<forall>g' \<in> set ms. \<forall>c'. via g' = Some c' \<longrightarrow> t \<le> c')"
          by (rule exI [of _ xs], rule exI [of _ x], rule exI [of _ "[]"]) (use all Some in simp)
        then show ?thesis unfolding unfold sv by simp
      next
        case False
        have sv: "step (m, y) x = (Finite c, y)"
          by (subst step) (simp add: Some Finite False)
        have "\<exists>ks' g' ms'. xs @ [x] = ks' @ g' # ms' \<and> y = out c g' \<and> via g' = Some c
           \<and> (\<forall>g'' \<in> set ks'. \<forall>c'. via g'' = Some c' \<longrightarrow> c < c')
           \<and> (\<forall>g'' \<in> set ms'. \<forall>c'. via g'' = Some c' \<longrightarrow> c \<le> c')"
          by (rule exI [of _ ks], rule exI [of _ g], rule exI [of _ "ms @ [x]"])
             (use inv Some False in auto)
        then show ?thesis unfolding unfold sv by simp
      qed
    qed
  qed
qed

lemma bestPredecessor_cases:
  assumes "bestPredecessor level notes i f ctx h pos config sc prev = (m, y)"
  shows "case m of
     Infinity \<Rightarrow> y = (None, [])
        \<and> (\<forall>g \<in> set fingers. viaPredecessor level notes i f ctx h pos config sc prev g = None)
   | Finite c \<Rightarrow>
        (\<exists>ks g ms. fingers = ks @ g # ms
           \<and> y = (Some (i - 1, g),
                  reasons (computeTransitionCost level (notes ! (i - 1)) g (notes ! i) f
                             ctx h pos config sc))
           \<and> viaPredecessor level notes i f ctx h pos config sc prev g = Some c
           \<and> (\<forall>g' \<in> set ks. \<forall>c'.
                 viaPredecessor level notes i f ctx h pos config sc prev g' = Some c' \<longrightarrow> c < c')
           \<and> (\<forall>g' \<in> set ms. \<forall>c'.
                 viaPredecessor level notes i f ctx h pos config sc prev g' = Some c' \<longrightarrow> c \<le> c'))"
proof -
  have "case foldl (scanStep level notes i f ctx h pos config sc prev) (Infinity, (None, [])) fingers of
     (Infinity, y) \<Rightarrow> y = (None, [])
        \<and> (\<forall>g \<in> set fingers. viaPredecessor level notes i f ctx h pos config sc prev g = None)
   | (Finite c, y) \<Rightarrow>
        (\<exists>ks g ms. fingers = ks @ g # ms
           \<and> y = (Some (i - 1, g),
                  reasons (computeTransitionCost level (notes ! (i - 1)) g (notes ! i) f
                             ctx h pos config sc))
           \<and> viaPredecessor level notes i f ctx h pos config sc prev g = Some c
           \<and> (\<forall>g' \<in> set ks. \<forall>c'.
                 viaPredecessor level notes i f ctx h pos config sc prev g' = Some c' \<longrightarrow> c < c')
           \<and> (\<forall>g' \<in> set ms. \<forall>c'.
                 viaPredecessor level notes i f ctx h pos config sc prev g' = Some c' \<longrightarrow> c \<le> c'))"
    by (rule first_min_fold [where d = "(None, [])"
        and out = "\<lambda>t g. (Some (i - 1, g),
                  reasons (computeTransitionCost level (notes ! (i - 1)) g (notes ! i) f
                             ctx h pos config sc))"])
       (rule scanStep_via)
  then show ?thesis using assms by (simp add: bestPredecessor_def split: Total.splits)
qed

lemma fingers_split:
  assumes "fingers = ks @ g # ms"
  shows "g \<in> set fingers \<and> (\<forall>x \<in> set ks. x < g) \<and> (\<forall>x \<in> set ms. g < x)"
proof -
  have "sorted_wrt (<) fingers" by (simp add: fingers_def)
  then have "sorted_wrt (<) (ks @ g # ms)" unfolding assms .
  then have "(\<forall>x \<in> set ks. x < g) \<and> (\<forall>x \<in> set ms. g < x)"
    by (auto simp: sorted_wrt_append)
  moreover have "g \<in> set fingers" unfolding assms by simp
  ultimately show ?thesis by simp
qed

lemma bestFinal_cases:
  assumes "bestFinal L = (m, f)"
  shows "case m of
     Infinity \<Rightarrow> f = 3 \<and> L = []
   | Finite c \<Rightarrow>
       (\<exists>ks e ms. L = ks @ e # ms \<and> f = fst e \<and> c = cost (snd e)
          \<and> (\<forall>e' \<in> set ks. c < cost (snd e')) \<and> (\<forall>e' \<in> set ms. c \<le> cost (snd e')))"
proof -
  have "case foldl finalStep (Infinity, 3) L of
     (Infinity, y) \<Rightarrow> y = 3 \<and> (\<forall>e \<in> set L. Some (cost (snd e)) = None)
   | (Finite c, y) \<Rightarrow>
        (\<exists>ks e ms. L = ks @ e # ms \<and> y = fst e \<and> Some (cost (snd e)) = Some c
           \<and> (\<forall>e' \<in> set ks. \<forall>c'. Some (cost (snd e')) = Some c' \<longrightarrow> c < c')
           \<and> (\<forall>e' \<in> set ms. \<forall>c'. Some (cost (snd e')) = Some c' \<longrightarrow> c \<le> c'))"
    by (rule first_min_fold [where via = "\<lambda>e. Some (cost (snd e))" and out = "\<lambda>t e. fst e"])
       (simp add: finalStep_def)
  then show ?thesis using assms
    by (cases m; cases L) (auto simp: bestFinal_def)
qed

subsection \<open>The layers of the table\<close>

lemma mapSet_fresh: "k \<notin> fst ` set ps \<Longrightarrow> mapSet k v ps = ps @ [(k, v)]"
  by (induction ps) auto

lemma initialLayer_eq:
  "initialLayer level notes h hp config =
     map (\<lambda>f. (f, \<lparr>cost = cost (computeInitialCost level f (notes ! 0) h (hp ! 0) config),
                    reasons = reasons (computeInitialCost level f (notes ! 0) h (hp ! 0) config),
                    parent = None\<rparr>)) fingers"
  by (simp add: initialLayer_def initialStep_def fingers_def Let_def)

lemma initialLayer_full: "fullLayer (initialLayer level notes h hp config)"
  by (simp add: initialLayer_eq fullLayer_def comp_def)

lemma layerStep_fold:
  assumes "\<forall>f \<in> set fs. fst (bestPredecessor level notes i f ctx h pos config sc prev) \<noteq> Infinity"
    and "distinct fs" and "set fs \<inter> fst ` set acc = {}"
  shows "foldl (layerStep level notes i ctx h pos config sc prev) acc fs =
     acc @ map (\<lambda>f. (f, stateOf (bestPredecessor level notes i f ctx h pos config sc prev))) fs"
  using assms
proof (induction fs arbitrary: acc)
  case Nil
  show ?case by simp
next
  case (Cons f fs)
  obtain m p r where b: "bestPredecessor level notes i f ctx h pos config sc prev = (m, p, r)"
    by (cases "bestPredecessor level notes i f ctx h pos config sc prev") auto
  with Cons.prems(1) obtain c where m: "m = Finite c" by (cases m) auto
  have fresh: "f \<notin> fst ` set acc" using Cons.prems(3) by auto
  have step: "layerStep level notes i ctx h pos config sc prev acc f =
      acc @ [(f, stateOf (bestPredecessor level notes i f ctx h pos config sc prev))]"
    by (simp add: layerStep_def b m stateOf_def mapSet_fresh [OF fresh])
  have "set fs \<inter> fst ` set (acc @ [(f, stateOf (bestPredecessor level notes i f ctx h pos config sc prev))]) = {}"
    using Cons.prems(2,3) by auto
  with Cons.IH [of "acc @ [(f, stateOf (bestPredecessor level notes i f ctx h pos config sc prev))]"]
    Cons.prems(1,2)
  show ?case by (simp add: step)
qed

lemma fullLayer_lookup:
  assumes "fullLayer L" "g \<in> set fingers"
  shows "\<exists>st. map_of L g = Some st"
proof -
  have "set (map fst L) = set fingers" using assms(1) by (simp add: fullLayer_def)
  then have "g \<in> fst ` set L" using assms(2) by simp
  then show ?thesis by (cases "map_of L g") (auto simp: map_of_eq_None_iff)
qed

lemma via_other_finger:
  assumes "fullLayer prev" "f \<in> set fingers" "g \<in> set fingers" "g \<noteq> f"
  shows "viaPredecessor level notes i f ctx h pos (getDifficultyConfig level) sc prev g \<noteq> None"
proof -
  obtain st where "map_of prev g = Some st" using fullLayer_lookup [OF assms(1,3)] by blast
  moreover have "cost (computeTransitionCost level (notes ! (i - 1)) g (notes ! i) f ctx h pos
                   (getDifficultyConfig level) sc) \<le> 382"
    by (rule other_finger_cost [OF assms(2,4)])
  ultimately show ?thesis by (simp add: viaPredecessor_def Let_def)
qed

lemma bestPredecessor_finite:
  assumes "fullLayer prev" "f \<in> set fingers"
  shows "fst (bestPredecessor level notes i f ctx h pos (getDifficultyConfig level) sc prev)
           \<noteq> Infinity"
proof
  assume inf: "fst (bestPredecessor level notes i f ctx h pos (getDifficultyConfig level) sc prev)
           = Infinity"
  define g :: int where "g = (if f = 1 then 2 else 1)"
  have g: "g \<in> set fingers" "g \<noteq> f" by (simp_all add: g_def fingers_def)
  obtain y where eq: "bestPredecessor level notes i f ctx h pos (getDifficultyConfig level) sc prev
      = (Infinity, y)"
    using inf by (cases "bestPredecessor level notes i f ctx h pos (getDifficultyConfig level) sc prev") auto
  from bestPredecessor_cases [OF eq]
  have "viaPredecessor level notes i f ctx h pos (getDifficultyConfig level) sc prev g = None"
    using g(1) by simp
  with via_other_finger [OF assms g] show False by blast
qed

lemma nextLayer_eq:
  assumes "fullLayer prev"
  shows "nextLayer level notes patterns h hp segs (getDifficultyConfig level) i prev =
     map (\<lambda>f. (f, stateOf (bestPredecessor level notes i f (getPatternContext notes i patterns)
                   h (hp ! i) (getDifficultyConfig level)
                   (list_ex (\<lambda>seg. i \<ge> segStart seg \<and> i \<le> segEnd seg) segs) prev))) fingers"
  unfolding nextLayer_def
proof (subst layerStep_fold)
  show "\<forall>f\<in>set fingers. fst (bestPredecessor level notes i f (getPatternContext notes i patterns)
                   h (hp ! i) (getDifficultyConfig level)
                   (list_ex (\<lambda>seg. i \<ge> segStart seg \<and> i \<le> segEnd seg) segs) prev) \<noteq> Infinity"
    using bestPredecessor_finite [OF assms] by blast
  show "distinct fingers" by (simp add: fingers_def)
qed simp_all

lemma stateOf_parent:
  "case parent (stateOf (bestPredecessor level notes i f ctx h pos conf sc prev)) of
     None \<Rightarrow> True | Some (j, g) \<Rightarrow> g \<in> set fingers"
proof (cases "bestPredecessor level notes i f ctx h pos conf sc prev")
  case (fields m p r)
  show ?thesis
  proof (cases m)
    case Infinity
    with fields bestPredecessor_cases [OF fields]
    show ?thesis by (simp add: stateOf_def)
  next
    case (Finite c)
    with fields bestPredecessor_cases [OF fields]
    obtain ks g ms where "fingers = ks @ g # ms" "p = Some (i - 1, g)" by auto
    with fields fingers_split [of ks g ms] show ?thesis by (simp add: stateOf_def)
  qed
qed

lemma nextLayer_full:
  assumes "fullLayer prev"
  shows "fullLayer (nextLayer level notes patterns h hp segs (getDifficultyConfig level) i prev)"
  unfolding nextLayer_eq [OF assms] fullLayer_def
  using stateOf_parent by (auto simp: comp_def)

lemma foldl_table:
  assumes step: "\<And>dp i. step dp i = dp @ [nxt i (dp ! (i - 1))]"
  shows "foldl step [init] [1..<Suc k] = map (rec_nat init (\<lambda>j. nxt (Suc j))) [0..<Suc k]"
proof (induction k)
  case 0
  show ?case by simp
next
  case (Suc k)
  define T where "T = rec_nat init (\<lambda>j. nxt (Suc j))"
  have up: "[1..<Suc (Suc k)] = [1..<Suc k] @ [Suc k]" by simp
  have "foldl step [init] [1..<Suc (Suc k)] = step (map T [0..<Suc k]) (Suc k)"
    unfolding up foldl_append Suc.IH T_def by simp
  also have "\<dots> = map T [0..<Suc k] @ [nxt (Suc k) (map T [0..<Suc k] ! k)]"
    by (subst step) simp
  also have "map T [0..<Suc k] ! k = T k"
    by (simp add: nth_append)
  also have "nxt (Suc k) (T k) = T (Suc k)" by (simp add: T_def)
  finally show ?case by (simp add: T_def)
qed

lemma forwardPass_layers:
  assumes "notes \<noteq> []"
  shows "length (forwardPass level notes patterns h) = length notes"
    and "j < length notes \<Longrightarrow> fullLayer (forwardPass level notes patterns h ! j)"
    and "1 \<le> j \<Longrightarrow> j < length notes \<Longrightarrow>
           forwardPass level notes patterns h ! j =
             nextLayer level notes patterns h (analyzeHandPositions notes h)
               (detectScaleSegments notes) (getDifficultyConfig level) j
               (forwardPass level notes patterns h ! (j - 1))"
proof -
  from assms obtain k where k: "length notes = Suc k" by (cases "notes") auto
  define nxt where "nxt = nextLayer level notes patterns h (analyzeHandPositions notes h)
               (detectScaleSegments notes) (getDifficultyConfig level)"
  define init where "init = initialLayer level notes h (analyzeHandPositions notes h)
               (getDifficultyConfig level)"
  define T where "T = rec_nat init (\<lambda>j. nxt (Suc j))"
  have "forwardPass level notes patterns h =
      foldl (forwardStep level notes patterns h (analyzeHandPositions notes h)
                    (detectScaleSegments notes) (getDifficultyConfig level))
        [init] [1..<Suc k]"
    by (simp add: forwardPass_def k init_def)
  also have "\<dots> = map T [0..<Suc k]"
    unfolding T_def by (rule foldl_table) (simp add: forwardStep_def nxt_def)
  finally have fp: "forwardPass level notes patterns h = map T [0..<Suc k]" .
  have full: "fullLayer (T i)" for i
    by (induction i) (simp_all add: T_def init_def nxt_def initialLayer_full nextLayer_full)
  have nth: "forwardPass level notes patterns h ! i = T i" if "i \<le> k" for i
    unfolding fp using that by (metis add_0 le_imp_less_Suc nth_map_upt diff_zero)
  show "length (forwardPass level notes patterns h) = length notes" by (simp add: fp k)
  show "j < length notes \<Longrightarrow> fullLayer (forwardPass level notes patterns h ! j)"
    using nth [of j] full [of j] k by simp
  show "1 \<le> j \<Longrightarrow> j < length notes \<Longrightarrow>
           forwardPass level notes patterns h ! j =
             nextLayer level notes patterns h (analyzeHandPositions notes h)
               (detectScaleSegments notes) (getDifficultyConfig level) j
               (forwardPass level notes patterns h ! (j - 1))"
  proof -
    assume j: "1 \<le> j" "j < length notes"
    then obtain j' where j': "j = Suc j'" by (cases j) auto
    have "T (Suc j') = nxt (Suc j') (T j')" by (simp add: T_def)
    then show ?thesis using nth [of j] nth [of j'] j k unfolding j' nxt_def by simp
  qed
qed

subsection \<open>Backtracking\<close>

lemma length_walkBack: "length (walkBack dp k f) = Suc k"
  by (induction k arbitrary: f) (simp_all add: Let_def)

lemma walkBack_fingers:
  assumes "\<forall>j \<le> k. fullLayer (dp ! j)" "f \<in> set fingers"
  shows "set (map fst (walkBack dp k f)) \<subseteq> set fingers"
  using assms
proof (induction k arbitrary: f)
  case 0
  then show ?case by simp
next
  case (Suc k)
  define g where "g = (case map_of (dp ! Suc k) f of
                          None \<Rightarrow> f
                        | Some st \<Rightarrow> (case parent st of None \<Rightarrow> f | Some (j, g) \<Rightarrow> g))"
  have "g \<in> set fingers"
  proof (cases "map_of (dp ! Suc k) f")
    case None
    then show ?thesis using Suc.prems by (simp add: g_def)
  next
    case (Some st)
    then have "(f, st) \<in> set (dp ! Suc k)" by (rule map_of_SomeD)
    moreover have "fullLayer (dp ! Suc k)" using Suc.prems by simp
    ultimately have "case parent st of None \<Rightarrow> True | Some (j, g) \<Rightarrow> g \<in> set fingers"
      unfolding fullLayer_def by fastforce
    then show ?thesis using Some Suc.prems by (auto simp: g_def split: option.splits)
  qed
  moreover have "\<forall>j \<le> k. fullLayer (dp ! j)" using Suc.prems by simp
  ultimately have "set (map fst (walkBack dp k g)) \<subseteq> set fingers" by (rule Suc.IH [rotated])
  then show ?case using Suc.prems(2) by (simp add: Let_def g_def)
qed

lemma bestFinal_finger:
  assumes "fullLayer L"
  shows "snd (bestFinal L) \<in> set fingers"
proof (cases "bestFinal L")
  case (Pair m f)
  show ?thesis
  proof (cases m)
    case Infinity
    with bestFinal_cases [OF Pair] Pair show ?thesis by (simp add: fingers_def)
  next
    case (Finite c)
    with bestFinal_cases [OF Pair] obtain ks e ms where "L = ks @ e # ms" "f = fst e" by auto
    then have "f \<in> set (map fst L)" by simp
    with assms Pair show ?thesis by (simp add: fullLayer_def)
  qed
qed

lemma dpOptimization_length:
  "length (fingering (dpOptimization level notes patterns h)) = Suc (length notes - 1)"
  by (simp add: dpOptimization_def backtrack_def length_walkBack)

lemma dpOptimization_length_nonempty:
  "notes \<noteq> [] \<Longrightarrow> length (fingering (dpOptimization level notes patterns h)) = length notes"
  by (cases "notes") (simp_all add: dpOptimization_length)

lemma dpOptimization_fingers:
  assumes "notes \<noteq> []"
  shows "set (fingering (dpOptimization level notes patterns h)) \<subseteq> set fingers"
proof -
  let ?dp = "forwardPass level notes patterns h"
  have full: "\<forall>j \<le> length notes - 1. fullLayer (?dp ! j)"
    using forwardPass_layers(2) [OF assms] assms
    by (metis One_nat_def Suc_pred le_imp_less_Suc length_greater_0_conv)
  then have "fullLayer (?dp ! (length notes - 1))" by simp
  then have "snd (bestFinal (?dp ! (length notes - 1))) \<in> set fingers" by (rule bestFinal_finger)
  with full have "set (map fst (walkBack ?dp (length notes - 1)
      (snd (bestFinal (?dp ! (length notes - 1)))))) \<subseteq> set fingers"
    by (rule walkBack_fingers)
  then show ?thesis by (simp add: dpOptimization_def backtrack_def)
qed

subsection \<open>Chunks\<close>

lemma chunkNotes_nonempty: "c \<in> set (chunkNotes ns i) \<Longrightarrow> c \<noteq> []"
proof (induction ns i rule: chunkNotes.induct)
  case (1 ns i)
  show ?case
  proof (cases "i < length ns")
    case True
    with 1 show ?thesis
      by (subst (asm) (2) chunkNotes.simps) (auto simp: Let_def chunkSize_def)
  next
    case False
    with 1(2) show ?thesis by (subst (asm) chunkNotes.simps) simp
  qed
qed

lemma chunkNotes_tail_length:
  "sum_list (map (\<lambda>c. length c - overlapSize) (chunkNotes ns i))
     = length ns - min (i + overlapSize) (length ns)"
proof (induction ns i rule: chunkNotes.induct)
  case (1 ns i)
  show ?case
  proof (cases "i < length ns")
    case True
    with 1 show ?thesis
      by (subst chunkNotes.simps) (auto simp: Let_def chunkSize_def overlapSize_def)
  next
    case False
    then show ?thesis by (subst chunkNotes.simps) simp
  qed
qed

lemma fold_appendChunk:
  "k > 0 \<Longrightarrow> foldl appendChunk (fs, es, t) (enumerate k sols) =
     (fs @ concat (map (\<lambda>sol. drop overlapSize (fingering sol)) sols),
      es @ concat (map (\<lambda>sol. drop overlapSize (explanations sol)) sols),
      foldl plusTotal t (map totalCost sols))"
  by (induction sols arbitrary: fs es t k) (simp_all add: appendChunk_def)

lemma chunkedOptimization_eq:
  assumes "notes \<noteq> []"
  shows "chunkedOptimization level notes patterns h =
     \<lparr>fingering = fingering (dpOptimization level (take chunkSize notes) patterns h)
        @ concat (map (\<lambda>c. drop overlapSize (fingering (dpOptimization level c patterns h)))
            (chunkNotes notes (chunkSize - overlapSize))),
      totalCost = foldl plusTotal (Finite 0)
        (map (\<lambda>c. totalCost (dpOptimization level c patterns h)) (chunkNotes notes 0)),
      explanations = explanations (dpOptimization level (take chunkSize notes) patterns h)
        @ concat (map (\<lambda>c. drop overlapSize (explanations (dpOptimization level c patterns h)))
            (chunkNotes notes (chunkSize - overlapSize)))\<rparr>"
proof -
  have c0: "chunkNotes notes 0 = take chunkSize notes # chunkNotes notes (chunkSize - overlapSize)"
    using assms by (subst chunkNotes.simps) (simp add: Let_def min_def)
  show ?thesis
    unfolding chunkedOptimization_def Let_def c0
    by (simp add: appendChunk_def fold_appendChunk comp_def)
qed

lemma chunkedOptimization_length:
  assumes "notes \<noteq> []"
  shows "length (fingering (chunkedOptimization level notes patterns h)) = length notes"
proof -
  have first: "length (fingering (dpOptimization level (take chunkSize notes) patterns h))
      = min chunkSize (length notes)"
    using assms by (subst dpOptimization_length_nonempty) (simp_all add: chunkSize_def min.commute)
  have "length (concat (map (\<lambda>c. drop overlapSize
        (fingering (dpOptimization level c patterns h))) (chunkNotes notes (chunkSize - overlapSize))))
      = sum_list (map (\<lambda>c. length (drop overlapSize
          (fingering (dpOptimization level c patterns h))))
            (chunkNotes notes (chunkSize - overlapSize)))"
    by (simp add: length_concat comp_def)
  also have "\<dots> = sum_list (map (\<lambda>c. length c - overlapSize)
            (chunkNotes notes (chunkSize - overlapSize)))"
    by (rule arg_cong [of _ _ sum_list], rule map_cong [OF refl])
       (simp add: dpOptimization_length_nonempty chunkNotes_nonempty)
  also have "\<dots> = length notes - min (chunkSize - overlapSize + overlapSize) (length notes)"
    by (rule chunkNotes_tail_length)
  finally have rest: "length (concat (map (\<lambda>c. drop overlapSize
        (fingering (dpOptimization level c patterns h))) (chunkNotes notes (chunkSize - overlapSize))))
      = length notes - min chunkSize (length notes)"
    by (simp add: chunkSize_def overlapSize_def)
  show ?thesis
    unfolding chunkedOptimization_eq [OF assms] using first rest by simp
qed

lemma chunkedOptimization_fingers:
  assumes "notes \<noteq> []"
  shows "set (fingering (chunkedOptimization level notes patterns h)) \<subseteq> set fingers"
proof -
  have "take chunkSize notes \<noteq> []" using assms by (simp add: chunkSize_def)
  then have "set (fingering (dpOptimization level (take chunkSize notes) patterns h)) \<subseteq> set fingers"
    by (rule dpOptimization_fingers)
  moreover have "set (drop overlapSize (fingering (dpOptimization level c patterns h)))
      \<subseteq> set fingers" if "c \<in> set (chunkNotes notes (chunkSize - overlapSize))" for c
    using dpOptimization_fingers [OF chunkNotes_nonempty [OF that], of level patterns h]
      set_drop_subset [of overlapSize "fingering (dpOptimization level c patterns h)"]
    by blast
  ultimately show ?thesis
    unfolding chunkedOptimization_eq [OF assms] by auto
qed

lemma planHandFingering_length:
  "length (fingering (planHandFingering level notes patterns h)) = length notes"
  by (cases "notes = []")
     (simp_all add: planHandFingering_def chunkedOptimization_length dpOptimization_length_nonempty)

lemma planHandFingering_fingers:
  "set (fingering (planHandFingering level notes patterns h)) \<subseteq> set fingers"
  by (cases "notes = []")
     (simp_all add: planHandFingering_def chunkedOptimization_fingers dpOptimization_fingers)

subsection \<open>Merging the hands\<close>

lemma merge_fold:
  "\<exists>r' l' es'. foldl (mergeStep rh lh) (r, l, fs, es) ns =
     (r', l', fs @ mergeList (fingering rh) (fingering lh) ns r l, es')"
proof (induction ns arbitrary: r l fs es)
  case Nil
  show ?case by simp
next
  case (Cons n ns)
  show ?case
  proof (cases "hand n = RH")
    case True
    from Cons [of "r + 1" l "fs @ [orDefault (fingering rh) r 0 3]"
        "es @ [orDefault (explanations rh) r [] []]"] True
    show ?thesis by (simp add: mergeStep_def)
  next
    case False
    from Cons [of r "l + 1" "fs @ [orDefault (fingering lh) l 0 3]"
        "es @ [orDefault (explanations lh) l [] []]"] False
    show ?thesis by (simp add: mergeStep_def)
  qed
qed

lemma length_mergeList: "length (mergeList frh flh ns r l) = length ns"
  by (induction ns arbitrary: r l) simp_all

lemma mergeList_nth:
  "i < length ns \<Longrightarrow> mergeList frh flh ns r l ! i =
     (if hand (ns ! i) = RH
      then orDefault frh (r + length (filter (\<lambda>n. hand n = RH) (take i ns))) 0 3
      else orDefault flh (l + length (filter (\<lambda>n. hand n = LH) (take i ns))) 0 3)"
proof (induction ns arbitrary: i r l)
  case Nil
  then show ?case by simp
next
  case (Cons n ns)
  show ?case
  proof (cases i)
    case 0
    then show ?thesis by simp
  next
    case (Suc j)
    with Cons.prems have j: "j < length ns" by simp
    have lh: "hand n \<noteq> RH \<Longrightarrow> hand n = LH" by (cases "hand n") auto
    show ?thesis
      using Cons.IH [OF j] lh by (auto simp: Suc)
  qed
qed

lemma fingering_planFingering:
  "fingering (planFingering level notes patterns) =
     mergeList (fingering (planHandFingering level (filter (\<lambda>n. hand n = RH) notes) patterns RH))
       (fingering (planHandFingering level (filter (\<lambda>n. hand n = LH) notes) patterns LH))
       notes 0 0"
proof (cases "notes = []")
  case True
  then show ?thesis by (simp add: planFingering_def)
next
  case False
  obtain r' l' es' where
    "foldl (mergeStep (planHandFingering level (filter (\<lambda>n. hand n = RH) notes) patterns RH)
              (planHandFingering level (filter (\<lambda>n. hand n = LH) notes) patterns LH))
        (0, 0, [], []) notes =
     (r', l', [] @ mergeList
        (fingering (planHandFingering level (filter (\<lambda>n. hand n = RH) notes) patterns RH))
        (fingering (planHandFingering level (filter (\<lambda>n. hand n = LH) notes) patterns LH))
        notes 0 0, es')"
    using merge_fold by blast
  with False show ?thesis by (simp add: planFingering_def Let_def)
qed

lemma rank_less:
  assumes "i < length xs" "P (xs ! i)"
  shows "length (filter P (take i xs)) < length (filter P xs)"
proof -
  have "xs = take i xs @ xs ! i # drop (Suc i) xs" using assms(1) by (rule id_take_nth_drop)
  then have "filter P xs = filter P (take i xs) @ xs ! i # filter P (drop (Suc i) xs)"
    using assms(2) by (metis filter.simps(2) filter_append)
  then show ?thesis by simp
qed

lemma orDefault_finger:
  assumes "k < length fs" "set fs \<subseteq> set fingers"
  shows "orDefault fs k 0 3 = fs ! k"
proof -
  have "fs ! k \<in> set fingers" using assms by auto
  then have "fs ! k \<noteq> 0" by (auto simp: fingers_def)
  with assms(1) show ?thesis by (simp add: orDefault_def)
qed

text \<open>
  Claim C2: for every note stream, pattern list and difficulty, the fingering that
  \<^verbatim>\<open>planFingering\<close> returns is as long as the input, each entry is a finger from 1 to 5, and
  the entry at index \<open>i\<close> is the entry of the solution of the hand of note \<open>i\<close> at the position of
  that note within its hand (a position the solution has). The solution of a hand is that of
  \<^verbatim>\<open>planHandFingering\<close>, which takes the chunked path for more than 64 notes.
\<close>

theorem planFingering_merged:
  "length (fingering (planFingering level notes patterns)) = length notes
   \<and> (\<forall>f \<in> set (fingering (planFingering level notes patterns)). 1 \<le> f \<and> f \<le> 5)
   \<and> (\<forall>i < length notes.
         length (filter (\<lambda>n. hand n = hand (notes ! i)) (take i notes))
           < length (fingering (planHandFingering level
                (filter (\<lambda>n. hand n = hand (notes ! i)) notes) patterns (hand (notes ! i))))
         \<and> fingering (planFingering level notes patterns) ! i =
             fingering (planHandFingering level
                (filter (\<lambda>n. hand n = hand (notes ! i)) notes) patterns (hand (notes ! i)))
             ! length (filter (\<lambda>n. hand n = hand (notes ! i)) (take i notes)))"
proof (intro conjI ballI allI impI)
  show len: "length (fingering (planFingering level notes patterns)) = length notes"
    by (simp add: fingering_planFingering length_mergeList)
  have nth: "length (filter (\<lambda>n. hand n = hand (notes ! i)) (take i notes))
           < length (fingering (planHandFingering level
                (filter (\<lambda>n. hand n = hand (notes ! i)) notes) patterns (hand (notes ! i))))
         \<and> fingering (planFingering level notes patterns) ! i =
             fingering (planHandFingering level
                (filter (\<lambda>n. hand n = hand (notes ! i)) notes) patterns (hand (notes ! i)))
             ! length (filter (\<lambda>n. hand n = hand (notes ! i)) (take i notes))"
    if i: "i < length notes" for i
  proof -
    define hd where "hd = hand (notes ! i)"
    have rank: "length (filter (\<lambda>n. hand n = hd) (take i notes))
        < length (fingering (planHandFingering level (filter (\<lambda>n. hand n = hd) notes) patterns hd))"
      unfolding planHandFingering_length
      by (rule rank_less [OF i]) (simp add: hd_def)
    have "fingering (planFingering level notes patterns) ! i =
        orDefault (fingering (planHandFingering level (filter (\<lambda>n. hand n = hd) notes) patterns hd))
          (length (filter (\<lambda>n. hand n = hd) (take i notes))) 0 3"
      unfolding fingering_planFingering mergeList_nth [OF i]
      by (cases hd) (auto simp: hd_def)
    also have "\<dots> = fingering (planHandFingering level (filter (\<lambda>n. hand n = hd) notes) patterns hd)
          ! length (filter (\<lambda>n. hand n = hd) (take i notes))"
      by (rule orDefault_finger [OF rank planHandFingering_fingers])
    finally show ?thesis using rank unfolding hd_def by simp
  qed
  show "length (filter (\<lambda>n. hand n = hand (notes ! i)) (take i notes))
           < length (fingering (planHandFingering level
                (filter (\<lambda>n. hand n = hand (notes ! i)) notes) patterns (hand (notes ! i))))"
    if "i < length notes" for i using nth [OF that] by simp
  show "fingering (planFingering level notes patterns) ! i =
             fingering (planHandFingering level
                (filter (\<lambda>n. hand n = hand (notes ! i)) notes) patterns (hand (notes ! i)))
             ! length (filter (\<lambda>n. hand n = hand (notes ! i)) (take i notes))"
    if "i < length notes" for i using nth [OF that] by simp
  fix f assume "f \<in> set (fingering (planFingering level notes patterns))"
  then obtain i where i: "i < length notes" "f = fingering (planFingering level notes patterns) ! i"
    using len by (metis in_set_conv_nth)
  from nth [OF i(1)] have "f \<in> set (fingering (planHandFingering level
                (filter (\<lambda>n. hand n = hand (notes ! i)) notes) patterns (hand (notes ! i))))"
    unfolding i(2) by (metis nth_mem)
  then have "f \<in> set fingers" using planHandFingering_fingers by blast
  then show "1 \<le> f" and "f \<le> 5" by (auto simp: fingers_def)
qed

theorem planFingering_merged_witness:
  "length (fingering (planFingering Beginner longStream [])) = 66
   \<and> fingering (planFingering Beginner longStream []) ! 65
       = fingering (planHandFingering Beginner [plainNote LH 1 0 48] [] LH) ! 0
   \<and> fingering (planFingering Beginner longStream []) ! 64
       = fingering (chunkedOptimization Beginner (replicate 65 (plainNote RH 1 0 60)) [] RH) ! 64"
proof -
  note m = planFingering_merged [of Beginner longStream "[]"]
  have len: "length longStream = 66" by (simp add: longStream_def)
  have n65: "hand (longStream ! 65) = LH"
    by (simp add: longStream_def nth_append plainNote_def)
  have n64: "hand (longStream ! 64) = RH"
    by (simp add: longStream_def nth_append plainNote_def)
  have lh: "filter (\<lambda>n. hand n = LH) longStream = [plainNote LH 1 0 48]"
    by (simp add: longStream_def plainNote_def)
  have rh: "filter (\<lambda>n. hand n = RH) longStream = replicate 65 (plainNote RH 1 0 60)"
    by (simp add: longStream_def plainNote_def)
  have t65: "filter (\<lambda>n. hand n = LH) (take 65 longStream) = []"
    by (simp add: longStream_def plainNote_def)
  have t64: "length (filter (\<lambda>n. hand n = RH) (take 64 longStream)) = 64"
    by (simp add: longStream_def plainNote_def)
  have ch: "planHandFingering Beginner (replicate 65 (plainNote RH 1 0 60)) [] RH
      = chunkedOptimization Beginner (replicate 65 (plainNote RH 1 0 60)) [] RH"
    by (simp add: planHandFingering_def)
  from m have a: "length (fingering (planFingering Beginner longStream [])) = 66"
    using len by simp
  from m have "\<forall>i<66. fingering (planFingering Beginner longStream []) ! i =
             fingering (planHandFingering Beginner
                (filter (\<lambda>n. hand n = hand (longStream ! i)) longStream) [] (hand (longStream ! i)))
             ! length (filter (\<lambda>n. hand n = hand (longStream ! i)) (take i longStream))"
    using len by simp
  then have b: "fingering (planFingering Beginner longStream []) ! 65 =
             fingering (planHandFingering Beginner
                (filter (\<lambda>n. hand n = hand (longStream ! 65)) longStream) [] (hand (longStream ! 65)))
             ! length (filter (\<lambda>n. hand n = hand (longStream ! 65)) (take 65 longStream))"
    and c: "fingering (planFingering Beginner longStream []) ! 64 =
             fingering (planHandFingering Beginner
                (filter (\<lambda>n. hand n = hand (longStream ! 64)) longStream) [] (hand (longStream ! 64)))
             ! length (filter (\<lambda>n. hand n = hand (longStream ! 64)) (take 64 longStream))"
    by simp_all
  show ?thesis
    using a b c unfolding n65 n64 lh rh t65 t64 ch by simp
qed

subsection \<open>Reachability of the states\<close>

lemma map_of_layer:
  assumes "f \<in> set fingers"
  shows "map_of (map (\<lambda>f. (f, F f)) fingers) f = Some (F f)"
  using assms by (simp add: map_of_map_restrict)

lemma layer_state:
  assumes "notes \<noteq> []" "1 \<le> i" "i < length notes" "f \<in> set fingers"
  shows "map_of (forwardPass level notes patterns h ! i) f =
     Some (stateOf (bestPredecessor level notes i f (getPatternContext notes i patterns) h
             (analyzeHandPositions notes h ! i) (getDifficultyConfig level) (inScaleAt notes i)
             (forwardPass level notes patterns h ! (i - 1))))"
proof -
  have prev: "fullLayer (forwardPass level notes patterns h ! (i - 1))"
    using assms by (intro forwardPass_layers(2)) simp_all
  show ?thesis
    unfolding forwardPass_layers(3) [OF assms(1,2,3)] nextLayer_eq [OF prev] inScaleAt_def
    by (rule map_of_layer [OF assms(4)])
qed

lemma last_walkBack: "fst (last (walkBack dp k f)) = f"
  by (cases k) (simp_all add: Let_def)

lemma walkBack_nonempty: "walkBack dp k f \<noteq> []"
  by (cases k) (simp_all add: Let_def)

lemma last_fingering:
  "last (fingering (dpOptimization level notes patterns h)) =
     snd (bestFinal (forwardPass level notes patterns h ! (length notes - 1)))"
  by (simp add: dpOptimization_def backtrack_def last_map walkBack_nonempty last_walkBack)

text \<open>
  Claim C5: for every non-empty note stream, pattern list, hand and difficulty, and every note
  index \<open>i\<close>: if \<open>i \<ge> 1\<close>, every target finger has a predecessor finger whose transition cost
  is at most 500; layer \<open>i\<close> of the table holds a state for each of the five fingers; the
  finger that the solution gives note \<open>i\<close> has a state in layer \<open>i\<close>; and the total cost is
  finite, so the default finger 3 of the backtrack is not what is returned.
\<close>

theorem dp_layers_full:
  assumes "notes \<noteq> []" and "i < length notes"
  shows "(1 \<le> i \<longrightarrow> (\<forall>f \<in> set fingers. \<exists>g \<in> set fingers.
            cost (transitionAt level notes patterns h i g f) \<le> 500))
     \<and> map fst (forwardPass level notes patterns h ! i) = fingers
     \<and> (\<exists>st. map_of (forwardPass level notes patterns h ! i)
                (fingering (dpOptimization level notes patterns h) ! i) = Some st)
     \<and> totalCost (dpOptimization level notes patterns h) \<noteq> Infinity"
proof (intro conjI impI ballI)
  fix f assume f: "f \<in> set fingers"
  define g :: int where "g = (if f = 1 then 2 else 1)"
  have g: "g \<in> set fingers" "g \<noteq> f" by (simp_all add: g_def fingers_def)
  have "cost (transitionAt level notes patterns h i g f) \<le> 382"
    unfolding transitionAt_def by (rule other_finger_cost [OF f g(2)])
  then show "\<exists>g \<in> set fingers. cost (transitionAt level notes patterns h i g f) \<le> 500"
    using g(1) by (intro bexI [of _ g]) simp_all
next
  have full: "fullLayer (forwardPass level notes patterns h ! i)"
    by (rule forwardPass_layers(2) [OF assms])
  then show "map fst (forwardPass level notes patterns h ! i) = fingers"
    by (simp add: fullLayer_def)
  have "i < length (fingering (dpOptimization level notes patterns h))"
    using assms by (simp add: dpOptimization_length_nonempty)
  then have "fingering (dpOptimization level notes patterns h) ! i \<in> set fingers"
    using dpOptimization_fingers [OF assms(1), of level patterns h] by (meson nth_mem subsetD)
  then show "\<exists>st. map_of (forwardPass level notes patterns h ! i)
                (fingering (dpOptimization level notes patterns h) ! i) = Some st"
    by (rule fullLayer_lookup [OF full])
next
  let ?L = "forwardPass level notes patterns h ! (length notes - 1)"
  have "fullLayer ?L" using assms(1) by (intro forwardPass_layers(2)) simp_all
  then have ne: "?L \<noteq> []" by (auto simp: fullLayer_def fingers_def)
  obtain m f where b: "bestFinal ?L = (m, f)" by (cases "bestFinal ?L") auto
  from bestFinal_cases [OF b] ne have "m \<noteq> Infinity" by (cases m) auto
  then show "totalCost (dpOptimization level notes patterns h) \<noteq> Infinity"
    unfolding dpOptimization_def backtrack_def b by simp
qed

theorem dp_layers_full_witness:
  "map fst (forwardPass Intermediate measureOneNotes twoSegments RH ! 1) = fingers
   \<and> (\<exists>st. map_of (forwardPass Intermediate measureOneNotes twoSegments RH ! 1)
                (fingering (dpOptimization Intermediate measureOneNotes twoSegments RH) ! 1)
              = Some st)
   \<and> totalCost (dpOptimization Intermediate measureOneNotes twoSegments RH) \<noteq> Infinity"
proof -
  have "measureOneNotes \<noteq> []" "1 < length measureOneNotes"
    by (simp_all add: measureOneNotes_def)
  from dp_layers_full [OF this, of Intermediate twoSegments RH] show ?thesis by simp
qed

subsection \<open>Ties\<close>

lemma stateOf_Finite [simp]:
  "stateOf (Finite c, p, r) = \<lparr>cost = c, reasons = r, parent = p\<rparr>"
  by (simp add: stateOf_def)

text \<open>
  Claim C8: in the table of a non-empty stream, the state of \<open>(i, f)\<close> for \<open>i \<ge> 1\<close> points to
  a predecessor finger \<open>g\<close> through which the path costs least among the predecessors that are
  not pruned, and \<open>g\<close> is the lowest finger among those of least cost (the scan runs over
  1, 2, 3, 4, 5 and replaces its minimum only by a strictly smaller cost). The finger of the
  last note has the least cost in the last layer and is the lowest finger among those of least
  cost; that cost is the total cost. The costs compared are the doubles that the program
  computes, every sum rounded. The planner being a function of its inputs, equal inputs give
  equal outputs.
\<close>

theorem dp_tie_breaking:
  assumes "notes \<noteq> []"
  shows "(\<forall>i f. 1 \<le> i \<and> i < length notes \<and> f \<in> set fingers \<longrightarrow>
            (\<exists>st g. map_of (forwardPass level notes patterns h ! i) f = Some st
               \<and> parent st = Some (i - 1, g) \<and> g \<in> set fingers
               \<and> pathCostVia level notes patterns h i f g = Some (cost st)
               \<and> (\<forall>g' \<in> set fingers. \<forall>c'.
                     pathCostVia level notes patterns h i f g' = Some c' \<longrightarrow>
                     cost st \<le> c' \<and> (c' = cost st \<longrightarrow> g \<le> g'))))
     \<and> (\<exists>st. map_of (forwardPass level notes patterns h ! (length notes - 1))
                 (last (fingering (dpOptimization level notes patterns h))) = Some st
            \<and> totalCost (dpOptimization level notes patterns h) = Finite (cost st)
            \<and> (\<forall>g st'. map_of (forwardPass level notes patterns h ! (length notes - 1)) g
                           = Some st' \<longrightarrow>
                    cost st \<le> cost st'
                    \<and> (cost st' = cost st \<longrightarrow>
                         last (fingering (dpOptimization level notes patterns h)) \<le> g)))"
proof (intro conjI allI impI)
  fix i f assume a: "1 \<le> i \<and> i < length notes \<and> f \<in> set fingers"
  let ?prev = "forwardPass level notes patterns h ! (i - 1)"
  let ?b = "bestPredecessor level notes i f (getPatternContext notes i patterns) h
             (analyzeHandPositions notes h ! i) (getDifficultyConfig level) (inScaleAt notes i)
             ?prev"
  have "i - 1 < length notes" using a by arith
  then have prev: "fullLayer ?prev" by (rule forwardPass_layers(2) [OF assms])
  have st: "map_of (forwardPass level notes patterns h ! i) f = Some (stateOf ?b)"
    using assms a by (intro layer_state) simp_all
  obtain m y where b: "?b = (m, y)" by (cases ?b) auto
  have "m \<noteq> Infinity" using bestPredecessor_finite [OF prev, of f level "notes" i] a b
    by (metis fst_conv)
  then obtain c where m: "m = Finite c" by (cases m) auto
  from bestPredecessor_cases [OF b] m obtain ks g ms where s:
    "fingers = ks @ g # ms"
    "y = (Some (i - 1, g), reasons (computeTransitionCost level (notes ! (i - 1)) g (notes ! i) f
            (getPatternContext notes i patterns) h (analyzeHandPositions notes h ! i)
            (getDifficultyConfig level) (inScaleAt notes i)))"
    "pathCostVia level notes patterns h i f g = Some c"
    "\<forall>g' \<in> set ks. \<forall>c'. pathCostVia level notes patterns h i f g' = Some c' \<longrightarrow> c < c'"
    "\<forall>g' \<in> set ms. \<forall>c'. pathCostVia level notes patterns h i f g' = Some c' \<longrightarrow> c \<le> c'"
    unfolding pathCostVia_def by auto
  note sp = fingers_split [OF s(1)]
  have min: "c \<le> c' \<and> (c' = c \<longrightarrow> g \<le> g')"
    if "g' \<in> set fingers" "pathCostVia level notes patterns h i f g' = Some c'" for g' c'
  proof -
    from that(1) have "g' \<in> set ks \<or> g' = g \<or> g' \<in> set ms" unfolding s(1) by auto
    then show ?thesis
    proof (elim disjE)
      assume "g' \<in> set ks"
      with s(4) that(2) show ?thesis by auto
    next
      assume "g' = g"
      with s(3) that(2) show ?thesis by simp
    next
      assume "g' \<in> set ms"
      with s(5) that(2) sp show ?thesis by auto
    qed
  qed
  show "\<exists>st g. map_of (forwardPass level notes patterns h ! i) f = Some st
               \<and> parent st = Some (i - 1, g) \<and> g \<in> set fingers
               \<and> pathCostVia level notes patterns h i f g = Some (cost st)
               \<and> (\<forall>g' \<in> set fingers. \<forall>c'.
                     pathCostVia level notes patterns h i f g' = Some c' \<longrightarrow>
                     cost st \<le> c' \<and> (c' = cost st \<longrightarrow> g \<le> g'))"
    apply (rule exI [of _ "stateOf ?b"], rule exI [of _ g])
    using st sp s(3) min unfolding b m s(2) by simp
next
  let ?L = "forwardPass level notes patterns h ! (length notes - 1)"
  have full: "fullLayer ?L" using assms by (intro forwardPass_layers(2)) simp_all
  then have keys: "map fst ?L = fingers" by (simp add: fullLayer_def)
  then have dist: "distinct (map fst ?L)" by (simp add: fingers_def)
  have ne: "?L \<noteq> []" using keys by (auto simp: fingers_def)
  obtain m f where b: "bestFinal ?L = (m, f)" by (cases "bestFinal ?L") auto
  from bestFinal_cases [OF b] ne obtain c where m: "m = Finite c" by (cases m) auto
  from bestFinal_cases [OF b] m obtain ks e ms where s:
    "?L = ks @ e # ms" "f = fst e" "c = cost (snd e)"
    "\<forall>e' \<in> set ks. c < cost (snd e')" "\<forall>e' \<in> set ms. c \<le> cost (snd e')"
    by auto
  have "fingers = map fst ks @ fst e # map fst ms" using keys unfolding s(1) by simp
  note sp = fingers_split [OF this]
  have lastf: "last (fingering (dpOptimization level notes patterns h)) = f"
    unfolding last_fingering b by simp
  have tot: "totalCost (dpOptimization level notes patterns h) = Finite c"
    unfolding dpOptimization_def backtrack_def b m by simp
  have "(fst e, snd e) \<in> set ?L" unfolding s(1) by simp
  then have look: "map_of ?L f = Some (snd e)"
    unfolding s(2) using dist by (simp only: map_of_eq_Some_iff)
  have min: "cost (snd e) \<le> cost st' \<and> (cost st' = cost (snd e) \<longrightarrow> f \<le> g)"
    if "map_of ?L g = Some st'" for g st'
  proof -
    from that have "(g, st') \<in> set ?L" by (rule map_of_SomeD)
    then have "(g, st') \<in> set ks \<or> (g, st') = e \<or> (g, st') \<in> set ms"
      unfolding s(1) by auto
    then show ?thesis
    proof (elim disjE)
      assume "(g, st') \<in> set ks"
      with s(3,4) show ?thesis by fastforce
    next
      assume "(g, st') = e"
      with s(2) show ?thesis by auto
    next
      assume in_ms: "(g, st') \<in> set ms"
      then have "g \<in> set (map fst ms)" by force
      with sp s(2) have "f < g" by auto
      with in_ms s(3,5) show ?thesis by fastforce
    qed
  qed
  show "\<exists>st. map_of ?L (last (fingering (dpOptimization level notes patterns h))) = Some st
            \<and> totalCost (dpOptimization level notes patterns h) = Finite (cost st)
            \<and> (\<forall>g st'. map_of ?L g = Some st' \<longrightarrow>
                    cost st \<le> cost st'
                    \<and> (cost st' = cost st \<longrightarrow>
                         last (fingering (dpOptimization level notes patterns h)) \<le> g))"
    apply (rule exI [of _ "snd e"])
    using look tot min unfolding lastf s(3) by simp
qed

theorem dp_tie_breaking_witness:
  "(\<exists>st g. map_of (forwardPass Intermediate measureOneNotes twoSegments RH ! 1) 1 = Some st
       \<and> parent st = Some (0, g)
       \<and> pathCostVia Intermediate measureOneNotes twoSegments RH 1 1 g = Some (cost st))
   \<and> (\<exists>st. map_of (forwardPass Intermediate measureOneNotes twoSegments RH ! 3)
               (last (fingering (dpOptimization Intermediate measureOneNotes twoSegments RH)))
             = Some st
          \<and> totalCost (dpOptimization Intermediate measureOneNotes twoSegments RH)
              = Finite (cost st))"
proof -
  have ne: "measureOneNotes \<noteq> []" and len: "length measureOneNotes = 4"
    by (simp_all add: measureOneNotes_def)
  note t = dp_tie_breaking [OF ne, of Intermediate twoSegments RH]
  have pre: "1 \<le> (1::nat) \<and> 1 < length measureOneNotes \<and> (1::int) \<in> set fingers"
    by (simp add: len fingers_def)
  from conjunct1 [OF t, rule_format, OF pre] obtain st g where
    "map_of (forwardPass Intermediate measureOneNotes twoSegments RH ! 1) 1 = Some st"
    "parent st = Some (1 - 1, g)"
    "pathCostVia Intermediate measureOneNotes twoSegments RH 1 1 g = Some (cost st)"
    by blast
  then have first: "\<exists>st g. map_of (forwardPass Intermediate measureOneNotes twoSegments RH ! 1) 1
          = Some st \<and> parent st = Some (0, g)
       \<and> pathCostVia Intermediate measureOneNotes twoSegments RH 1 1 g = Some (cost st)"
    by auto
  from conjunct2 [OF t] obtain st' where
    "map_of (forwardPass Intermediate measureOneNotes twoSegments RH ! (length measureOneNotes - 1))
       (last (fingering (dpOptimization Intermediate measureOneNotes twoSegments RH))) = Some st'"
    "totalCost (dpOptimization Intermediate measureOneNotes twoSegments RH) = Finite (cost st')"
    by blast
  then have "\<exists>st. map_of (forwardPass Intermediate measureOneNotes twoSegments RH ! 3)
               (last (fingering (dpOptimization Intermediate measureOneNotes twoSegments RH)))
             = Some st
          \<and> totalCost (dpOptimization Intermediate measureOneNotes twoSegments RH)
              = Finite (cost st)"
    unfolding len by auto
  with first show ?thesis by simp
qed

subsection \<open>The chunked path\<close>

lemma chunkNotes_closed:
  "chunkNotes notes ((chunkSize - overlapSize) * k0) = map (chunkAt notes) [k0..<chunkCount notes]"
proof (induction "chunkCount notes - k0" arbitrary: k0)
  case 0
  then have "\<not> (chunkSize - overlapSize) * k0 < length notes"
    by (simp add: chunkCount_def chunkSize_def overlapSize_def)
  with 0 show ?case by (subst chunkNotes.simps) simp
next
  case (Suc d)
  then have lt: "(chunkSize - overlapSize) * k0 < length notes" and k: "k0 < chunkCount notes"
    by (simp_all add: chunkCount_def chunkSize_def overlapSize_def)
  have "d = chunkCount notes - Suc k0" using Suc.hyps(2) by simp
  then have IH: "chunkNotes notes ((chunkSize - overlapSize) * Suc k0)
      = map (chunkAt notes) [Suc k0..<chunkCount notes]"
    by (rule Suc.hyps(1))
  have "chunkNotes notes ((chunkSize - overlapSize) * k0)
      = chunkAt notes k0 # chunkNotes notes ((chunkSize - overlapSize) * Suc k0)"
    using lt by (subst chunkNotes.simps) (simp add: Let_def chunkAt_def min_def add.commute)
  then show ?case using IH k by (simp add: upt_conv_Cons)
qed

text \<open>
  Claim C10: for a hand-local stream of more than 64 notes the fingering is the solution of
  chunk 0 followed by the solutions of the chunks 1, 2, ... without their first 4 entries,
  where chunk \<open>k\<close> holds the (up to) 32 notes from index \<open>28 k\<close> on; the total cost is the sum of
  the totals of all chunks. The first 4 notes of a chunk are the last notes of the chunk
  before it, so the transitions among them are counted in both totals.
\<close>

theorem chunked_solution:
  assumes "length notes > 64"
  shows "fingering (planHandFingering level notes patterns h) =
       fingering (dpOptimization level (chunkAt notes 0) patterns h)
       @ concat (map (\<lambda>k. drop 4 (fingering (dpOptimization level (chunkAt notes k) patterns h)))
           [1..<chunkCount notes])
     \<and> totalCost (planHandFingering level notes patterns h) =
       foldl plusTotal (Finite 0)
         (map (\<lambda>k. totalCost (dpOptimization level (chunkAt notes k) patterns h))
            [0..<chunkCount notes])
     \<and> (\<forall>k. chunkAt notes k = take 32 (drop (28 * k) notes))
     \<and> (\<forall>k. take 4 (chunkAt notes (Suc k)) = drop 28 (chunkAt notes k))"
proof (intro conjI allI)
  have ne: "notes \<noteq> []" using assms by auto
  have plan: "planHandFingering level notes patterns h = chunkedOptimization level notes patterns h"
    using assms by (auto simp: planHandFingering_def)
  have c1: "chunkNotes notes (chunkSize - overlapSize) = map (chunkAt notes) [1..<chunkCount notes]"
    using chunkNotes_closed [of "notes" 1] by simp
  have c0: "chunkNotes notes 0 = map (chunkAt notes) [0..<chunkCount notes]"
    using chunkNotes_closed [of "notes" 0] by simp
  have first: "take chunkSize notes = chunkAt notes 0" by (simp add: chunkAt_def)
  show "fingering (planHandFingering level notes patterns h) =
       fingering (dpOptimization level (chunkAt notes 0) patterns h)
       @ concat (map (\<lambda>k. drop 4 (fingering (dpOptimization level (chunkAt notes k) patterns h)))
           [1..<chunkCount notes])"
    unfolding plan chunkedOptimization_eq [OF ne] c1 first
    by (simp add: comp_def overlapSize_def)
  show "totalCost (planHandFingering level notes patterns h) =
       foldl plusTotal (Finite 0)
         (map (\<lambda>k. totalCost (dpOptimization level (chunkAt notes k) patterns h))
            [0..<chunkCount notes])"
    unfolding plan chunkedOptimization_eq [OF ne] c0
    by (simp add: comp_def)
  show "chunkAt notes k = take 32 (drop (28 * k) notes)" for k
    by (simp add: chunkAt_def chunkSize_def overlapSize_def)
  show "take 4 (chunkAt notes (Suc k)) = drop 28 (chunkAt notes k)" for k
    by (simp add: chunkAt_def chunkSize_def overlapSize_def drop_take add.commute)
qed

theorem chunked_solution_witness:
  "fingering (planHandFingering Beginner (replicate 65 (plainNote RH 1 0 60)) [] RH) =
     fingering (dpOptimization Beginner (replicate 32 (plainNote RH 1 0 60)) [] RH)
     @ drop 4 (fingering (dpOptimization Beginner (replicate 32 (plainNote RH 1 0 60)) [] RH))
     @ drop 4 (fingering (dpOptimization Beginner (replicate 9 (plainNote RH 1 0 60)) [] RH))"
proof -
  have "[1..<chunkCount (replicate 65 (plainNote RH 1 0 60))] = [1, 2]"
    by (simp add: chunkCount_def upt_rec)
  with chunked_solution [of "replicate 65 (plainNote RH 1 0 60)" Beginner "[]" RH]
  show ?thesis by (simp add: chunkAt_def chunkSize_def overlapSize_def)
qed

subsection \<open>The segment list of a hand\<close>

lemma chained_Cons:
  "chained (a # xs) =
     (xs = [] \<or> (startIndex a < startIndex (hd xs) \<and> startIndex (hd xs) \<le> endIndex a + 1
                  \<and> chained xs))"
  by (cases xs) auto

lemma chained_sorted: "chained xs \<Longrightarrow> sorted_wrt (<) (map startIndex xs)"
proof (induction xs rule: chained.induct)
  case (1 a b rest)
  then have "sorted_wrt (<) (map startIndex (b # rest))" by simp
  moreover have "startIndex a < startIndex b" using 1 by simp
  ultimately show ?case by fastforce
qed simp_all

lemma chained_cover:
  assumes "chained xs" "xs \<noteq> []" "startIndex (hd xs) \<le> i" "i \<le> endIndex (last xs)"
  shows "\<exists>s \<in> set xs. startIndex s \<le> i \<and> i \<le> endIndex s"
  using assms
proof (induction xs rule: chained.induct)
  case (1 a b rest)
  show ?case
  proof (cases "startIndex b \<le> i")
    case True
    with 1 have "\<exists>s \<in> set (b # rest). startIndex s \<le> i \<and> i \<le> endIndex s" by simp
    then show ?thesis by auto
  next
    case False
    with 1 have "startIndex a \<le> i \<and> i \<le> endIndex a" by simp
    then show ?thesis by auto
  qed
qed simp_all

lemma mergeWalk_acc: "mergeWalk cur rest acc = acc @ mergeWalk cur rest []"
proof (induction rest arbitrary: cur acc)
  case Nil
  show ?case by simp
next
  case (Cons nxt rest)
  show ?case
    using Cons [of _ acc] Cons [of nxt "acc @ [cur]"] Cons [of nxt "[cur]"] by simp
qed

lemma mergeWalk_chained:
  assumes "chained (cur # rest)"
  shows "mergeWalk cur rest [] \<noteq> []
     \<and> chained (mergeWalk cur rest [])
     \<and> startIndex (hd (mergeWalk cur rest [])) = startIndex cur
     \<and> endIndex (last (mergeWalk cur rest [])) = endIndex (last (cur # rest))"
  using assms
proof (induction rest arbitrary: cur)
  case Nil
  show ?case by simp
next
  case (Cons nxt rest)
  from Cons.prems have c: "startIndex cur < startIndex nxt" "startIndex nxt \<le> endIndex cur + 1"
    "chained (nxt # rest)" by simp_all
  show ?case
  proof (cases "patternType cur = patternType nxt \<or> endIndex cur - startIndex cur < 3")
    case True
    define cur' where "cur' = cur\<lparr>endIndex := endIndex nxt,
        confidence := max (confidence cur) (confidence nxt)\<rparr>"
    have "chained (cur' # rest)"
      using c by (cases rest) (auto simp: cur'_def)
    from Cons.IH [OF this] have
      "mergeWalk cur' rest [] \<noteq> [] \<and> chained (mergeWalk cur' rest [])
       \<and> startIndex (hd (mergeWalk cur' rest [])) = startIndex cur'
       \<and> endIndex (last (mergeWalk cur' rest [])) = endIndex (last (cur' # rest))" .
    moreover have "mergeWalk cur (nxt # rest) [] = mergeWalk cur' rest []"
      using True by (simp add: cur'_def)
    moreover have "startIndex cur' = startIndex cur" by (simp add: cur'_def)
    moreover have "endIndex (last (cur' # rest)) = endIndex (last (cur # nxt # rest))"
      by (cases rest) (simp_all add: cur'_def)
    ultimately show ?thesis by simp
  next
    case False
    from Cons.IH [OF c(3)] have ih:
      "mergeWalk nxt rest [] \<noteq> []" "chained (mergeWalk nxt rest [])"
      "startIndex (hd (mergeWalk nxt rest [])) = startIndex nxt"
      "endIndex (last (mergeWalk nxt rest [])) = endIndex (last (nxt # rest))"
      by simp_all
    have eq: "mergeWalk cur (nxt # rest) [] = cur # mergeWalk nxt rest []"
      using False mergeWalk_acc [of nxt rest "[cur]"] by simp
    show ?thesis
      unfolding eq using ih c by (simp add: chained_Cons)
  qed
qed


lemma adaptWindowSize_last:
  "length notes - i = 1 \<Longrightarrow> adaptWindowSize notes i = 1"
  by (simp add: adaptWindowSize_def Let_def)

lemma adaptWindowSize_ge2:
  "2 \<le> length notes - i \<Longrightarrow> 2 \<le> adaptWindowSize notes i"
  by (simp add: adaptWindowSize_def Let_def baseWindowSize_def)

lemma recognizeLoop_acc:
  "recognizeLoop ns i segs = segs @ recognizeLoop ns i []"
proof (induction "length ns - i" arbitrary: i segs rule: less_induct)
  case less
  show ?case
  proof (cases "i < length ns")
    case False
    then show ?thesis by (simp add: recognizeLoop.simps)
  next
    case True
    show ?thesis
    proof (cases "min (i + adaptWindowSize ns i) (length ns) - i < 2")
      case short: True
      have smaller: "length ns - (i + 1) < length ns - i" using True by simp
      have "recognizeLoop ns i segs = recognizeLoop ns (i + 1) segs"
        using True short by (subst recognizeLoop.simps) simp
      also have "\<dots> = segs @ recognizeLoop ns (i + 1) []"
        by (rule less [OF smaller])
      also have "recognizeLoop ns (i + 1) [] = recognizeLoop ns i []"
        using True short by (subst (2) recognizeLoop.simps) simp
      finally show ?thesis .
    next
      case long: False
      let ?seg = "windowSegment ns i (min (i + adaptWindowSize ns i) (length ns))"
      let ?j = "i + max 1 (adaptWindowSize ns i div 2)"
      have smaller: "length ns - ?j < length ns - i" using True by simp
      have "recognizeLoop ns i segs = recognizeLoop ns ?j (segs @ [?seg])"
        using True long by (subst recognizeLoop.simps) simp
      also have "\<dots> = (segs @ [?seg]) @ recognizeLoop ns ?j []"
        by (rule less [OF smaller])
      finally have a: "recognizeLoop ns i segs = segs @ [?seg] @ recognizeLoop ns ?j []" by simp
      have "recognizeLoop ns i [] = recognizeLoop ns ?j [?seg]"
        using True long by (subst recognizeLoop.simps) simp
      also have "\<dots> = [?seg] @ recognizeLoop ns ?j []"
        by (rule less [OF smaller])
      finally show ?thesis using a by simp
    qed
  qed
qed

lemma recognizeLoop_tail:
  assumes "length ns \<le> i + 1"
  shows "recognizeLoop ns i [] = []"
proof (cases "i < length ns")
  case False
  then show ?thesis by (simp add: recognizeLoop.simps)
next
  case True
  with assms have one: "length ns - i = 1" by simp
  have "recognizeLoop ns i [] = recognizeLoop ns (i + 1) []"
    using True adaptWindowSize_last [OF one] by (subst recognizeLoop.simps) simp
  also have "\<dots> = []" using assms by (simp add: recognizeLoop.simps)
  finally show ?thesis .
qed

lemma recognizeLoop_chained:
  assumes "i + 2 \<le> length ns"
  shows "recognizeLoop ns i [] \<noteq> []
     \<and> chained (recognizeLoop ns i [])
     \<and> startIndex (hd (recognizeLoop ns i [])) = int i
     \<and> endIndex (last (recognizeLoop ns i [])) = int (length ns) - 1"
  using assms
proof (induction "length ns - i" arbitrary: i rule: less_induct)
  case less
  define w where "w = adaptWindowSize ns i"
  define j where "j = i + max 1 (w div 2)"
  define e where "e = min (i + w) (length ns)"
  define seg where "seg = windowSegment ns i e"
  have w: "2 \<le> w" unfolding w_def using less.prems by (intro adaptWindowSize_ge2) simp
  have e: "i + 2 \<le> e" "e \<le> length ns" using w less.prems by (simp_all add: e_def)
  have j: "i < j" "j + 1 \<le> i + w" using w by (auto simp: j_def)
  have seg: "startIndex seg = int i" "endIndex seg = int e - 1"
    using e by (simp_all add: seg_def windowSegment_def Let_def)
  have long: "\<not> min (i + adaptWindowSize ns i) (length ns) - i < 2"
    using e unfolding e_def w_def by linarith
  have "recognizeLoop ns i [] = recognizeLoop ns j [seg]"
    using less.prems long unfolding seg_def e_def j_def w_def
    by (subst recognizeLoop.simps) simp
  then have unfold: "recognizeLoop ns i [] = seg # recognizeLoop ns j []"
    using recognizeLoop_acc [of ns j "[seg]"] by simp
  show ?case
  proof (cases "j + 2 \<le> length ns")
    case True
    have "length ns - j < length ns - i" using j True by simp
    from less.hyps [OF this True] have ih:
      "recognizeLoop ns j [] \<noteq> []" "chained (recognizeLoop ns j [])"
      "startIndex (hd (recognizeLoop ns j [])) = int j"
      "endIndex (last (recognizeLoop ns j [])) = int (length ns) - 1"
      by simp_all
    have "j \<le> e" using j True by (simp add: e_def)
    then show ?thesis
      unfolding unfold using ih seg j by (simp add: chained_Cons)
  next
    case False
    then have "recognizeLoop ns j [] = []" by (intro recognizeLoop_tail) simp
    moreover have "e = length ns" using False j by (simp add: e_def)
    ultimately show ?thesis unfolding unfold using seg by simp
  qed
qed

lemma slowTrill_window: "adaptWindowSize slowTrill 0 = 4" "adaptWindowSize slowTrill 2 = 2"
  by (simp_all add: adaptWindowSize_def slowTrill_def plainNote_def Let_def addDuration_def)

lemma slowTrill_first:
  "patternType (windowSegment slowTrill 0 4) = ORNAMENTED
   \<and> startIndex (windowSegment slowTrill 0 4) = 0 \<and> endIndex (windowSegment slowTrill 0 4) = 3"
  by (simp add: windowSegment_def slowTrill_def feature_defs classify_defs)

lemma slowTrill_second:
  "patternType (windowSegment slowTrill 2 4) = SCALE
   \<and> startIndex (windowSegment slowTrill 2 4) = 2 \<and> endIndex (windowSegment slowTrill 2 4) = 3"
  by (simp add: windowSegment_def slowTrill_def feature_defs classify_defs)

lemma slowTrill_loop:
  "recognizeLoop slowTrill 0 [] = [windowSegment slowTrill 0 4, windowSegment slowTrill 2 4]"
proof -
  have len: "length slowTrill = 4" by (simp add: slowTrill_def)
  have "recognizeLoop slowTrill 0 [] = recognizeLoop slowTrill 2 [windowSegment slowTrill 0 4]"
    by (subst recognizeLoop.simps) (simp add: len slowTrill_window, simp add: numeral_2_eq_2)
  also have "\<dots> = recognizeLoop slowTrill 3
      [windowSegment slowTrill 0 4, windowSegment slowTrill 2 4]"
    by (subst recognizeLoop.simps) (simp add: len slowTrill_window)
  also have "\<dots> = recognizeLoop slowTrill 4
      [windowSegment slowTrill 0 4, windowSegment slowTrill 2 4]"
    by (subst recognizeLoop.simps) (simp add: len adaptWindowSize_def)
  also have "\<dots> = [windowSegment slowTrill 0 4, windowSegment slowTrill 2 4]"
    by (subst recognizeLoop.simps) (simp add: len)
  finally show ?thesis .
qed

text \<open>
  Claim C3 as stated: for every non-empty stream of a hand the segments after post-processing
  have non-decreasing starts, cover every index and do not overlap. It fails twice. A stream of
  one note gets no segment at all, since a window of fewer than two notes is skipped, so its
  index 0 is not covered. And of four slow notes with a trill on the first, the window of all
  four is ORNAMENTED and the window of the last two is SCALE; post-processing merges neither
  (the types differ and the first has four notes), so the segments 0..3 and 2..3 overlap.
\<close>

theorem segments_gap_and_overlap:
  "soloNote \<noteq> [] \<and> recognizeHandPatterns soloNote RH = []
   \<and> map (\<lambda>s. (startIndex s, endIndex s, patternType s)) (recognizeHandPatterns slowTrill RH)
       = [(0, 3, ORNAMENTED), (2, 3, SCALE)]"
proof -
  have "recognizeLoop soloNote 0 [] = recognizeLoop soloNote 1 []"
    by (subst recognizeLoop.simps) (simp add: soloNote_def adaptWindowSize_def)
  also have "\<dots> = []" by (subst recognizeLoop.simps) (simp add: soloNote_def)
  finally have "recognizeHandPatterns soloNote RH = []"
    by (simp add: recognizeHandPatterns_def postProcess_def)
  moreover have "map (\<lambda>s. (startIndex s, endIndex s, patternType s))
      (recognizeHandPatterns slowTrill RH) = [(0, 3, ORNAMENTED), (2, 3, SCALE)]"
    using slowTrill_first slowTrill_second
    by (simp add: recognizeHandPatterns_def slowTrill_loop postProcess_def)
      (simp add: slowTrill_def)
  ultimately show ?thesis by (simp add: soloNote_def)
qed

text \<open>
  Claim C3 as amended: for every stream of a hand with at least two notes, the segment list
  after post-processing is not empty, its starts increase strictly, and every index of the
  stream lies in the range of some segment. (Segments may overlap; a stream of one note has no
  segment.)
\<close>

theorem segments_chain:
  assumes "2 \<le> length notes"
  shows "recognizeHandPatterns notes h \<noteq> []
     \<and> sorted_wrt (<) (map startIndex (recognizeHandPatterns notes h))
     \<and> (\<forall>i. 0 \<le> i \<and> i < int (length notes) \<longrightarrow>
          (\<exists>s \<in> set (recognizeHandPatterns notes h). startIndex s \<le> i \<and> i \<le> endIndex s))"
proof -
  let ?raw = "recognizeLoop notes 0 []"
  from recognizeLoop_chained [of 0 "notes"] assms have raw:
    "?raw \<noteq> []" "chained ?raw" "startIndex (hd ?raw) = 0"
    "endIndex (last ?raw) = int (length notes) - 1"
    by simp_all
  then obtain cur rest where cr: "?raw = cur # rest" by (cases ?raw) auto
  let ?out = "mergeWalk cur rest []"
  have out: "recognizeHandPatterns notes h = ?out"
    using assms by (auto simp: recognizeHandPatterns_def postProcess_def cr)
  from mergeWalk_chained [of cur rest] raw cr have m:
    "?out \<noteq> []" "chained ?out" "startIndex (hd ?out) = 0"
    "endIndex (last ?out) = int (length notes) - 1"
    by simp_all
  have "\<exists>s \<in> set ?out. startIndex s \<le> i \<and> i \<le> endIndex s"
    if "0 \<le> i \<and> i < int (length notes)" for i
    using that m by (intro chained_cover) simp_all
  then show ?thesis unfolding out using m chained_sorted [OF m(2)] by blast
qed

theorem segments_chain_witness:
  "2 \<le> length slowTrill \<and> recognizeHandPatterns slowTrill RH \<noteq> []
   \<and> sorted_wrt (<) (map startIndex (recognizeHandPatterns slowTrill RH))"
  using segments_chain [of slowTrill RH] by (simp add: slowTrill_def)

subsection \<open>The octave of C major\<close>
































end
